theory Spec2Isabelle
  imports Main "HOL-Library.Sublist"
begin

section \<open>Python values, exceptions and the observable trace\<close>

text \<open>
  The program is \<^verbatim>\<open>2019/picamStreamer.py\<close>: an HTTP handler \<^verbatim>\<open>CamHandler\<close> with the
  methods \<^verbatim>\<open>do_GET\<close>, \<^verbatim>\<open>streamDirect\<close> and \<^verbatim>\<open>streamAlgo\<close>. Its collaborators (the camera
  \<^verbatim>\<open>picam.PiCam\<close>, \<^verbatim>\<open>algo.processFrame\<close>, \<^verbatim>\<open>cv2.imencode\<close>, the control channel \<^verbatim>\<open>comm\<close>
  and the response stream \<^verbatim>\<open>wfile\<close>) are outside the file. Each call to one of them is
  answered by the environment: the model takes the answers as a script and returns the
  trace of the calls the handler makes, in order.

  A request path arrives decoded as ISO-8859-1, one character per byte, so a Python
  \<^verbatim>\<open>str\<close> of the handler is a \<open>string\<close> here. The only strings the handler encodes to
  \<^verbatim>\<open>bytes\<close> are ASCII literals, on which UTF-8 is the identity.
\<close>

type_synonym bytes = string

text \<open>
  Python exceptions with their message (\<^verbatim>\<open>str(e)\<close>). \<open>Exc\<close> is an instance of
  \<^verbatim>\<open>Exception\<close>, which \<^verbatim>\<open>except Exception\<close> catches; \<open>BaseExc\<close> is one of the others
  (\<^verbatim>\<open>KeyboardInterrupt\<close>, \<^verbatim>\<open>SystemExit\<close>), which it lets through.
\<close>

datatype pyexc = Exc string | BaseExc string

fun catchable :: "pyexc \<Rightarrow> bool" where
  "catchable (Exc m) = True"
| "catchable (BaseExc m) = False"

fun str_exc :: "pyexc \<Rightarrow> string" where
  "str_exc (Exc m) = m"
| "str_exc (BaseExc m) = m"

text \<open>A value that is printed or sent as a header value: a string or an integer.\<close>

datatype pyval = PStr string | PInt nat

text \<open>
  How a call of a method ended, as far as the script told: \<open>Running\<close> when the script
  ran out inside a loop that has not exited, \<open>Returned\<close>, or \<open>Raised e\<close> when the
  exception \<open>e\<close> left the method.
\<close>

datatype status = Running | Returned | Raised pyexc

text \<open>
  The calls the handler makes. Calls on the camera, the detection routine, the encoder
  and the control channel are recorded when they are invoked. \<open>Write\<close> and
  \<open>EndHeaders\<close> (which flushes the buffered header lines to \<^verbatim>\<open>wfile\<close>) carry whether
  they completed: \<open>False\<close> is a write that raised. \<open>Sleep\<close> is in milliseconds.
\<close>

datatype ('f, 'v) event =
    Print pyval
  | Traceback pyexc
  | Sleep nat
  | SendResponse nat
  | SendHeader string pyval
  | EndHeaders bool
  | Write bytes bool
  | PiCam
  | CamStart
  | CamNext
  | CamStop
  | CaptureContinuous nat
  | ProcessFrame 'f string
  | UpdateVisionState string
  | UpdateTarget 'v
  | Imencode 'f

section \<open>Request path: \<^verbatim>\<open>endswith\<close>, \<^verbatim>\<open>os.path.basename\<close>, \<^verbatim>\<open>split\<close>\<close>

definition endswith :: "string \<Rightarrow> string \<Rightarrow> bool" where
  "endswith s suf \<longleftrightarrow> length suf \<le> length s \<and> drop (length s - length suf) s = suf"

text \<open>\<^verbatim>\<open>str.rfind\<close> for one character: the highest index of \<open>c\<close>, or \<open>-1\<close>.\<close>

fun rfind :: "char \<Rightarrow> string \<Rightarrow> int" where
  "rfind c [] = - 1"
| "rfind c (x # xs) =
     (let r = rfind c xs in if 0 \<le> r then r + 1 else if x = c then 0 else - 1)"

text \<open>\<^verbatim>\<open>posixpath.basename\<close>: \<^verbatim>\<open>i = p.rfind('/') + 1; return p[i:]\<close>.\<close>

definition basename :: "string \<Rightarrow> string" where
  "basename p = drop (nat (rfind (CHR ''/'') p + 1)) p"

text \<open>\<^verbatim>\<open>str.split(sep)\<close> for a separator of one character; the result is never empty.\<close>

fun split_chr :: "char \<Rightarrow> string \<Rightarrow> string list" where
  "split_chr c [] = [[]]"
| "split_chr c (x # xs) =
     (if x = c then [] # split_chr c xs
      else (case split_chr c xs of
              w # ws \<Rightarrow> (x # w) # ws
            | [] \<Rightarrow> [[x]]))"

text \<open>Line 41: \<^verbatim>\<open>algostr = os.path.basename(self.path).split(".")[0]\<close>.\<close>

definition algostr_of :: "string \<Rightarrow> string" where
  "algostr_of path = split_chr (CHR ''.'') (basename path) ! 0"

text \<open>Line 40: the test that selects a stream response.\<close>

definition is_stream_path :: "string \<Rightarrow> bool" where
  "is_stream_path path \<longleftrightarrow> endswith path ''.mjpg'' \<or> endswith path ''.mjpeg''"

text \<open>
  The two stream methods, as the dispatch at lines 53 to 56 selects them:
  \<^verbatim>\<open>streamDirect(cam)\<close> when \<^verbatim>\<open>algostr == "direct"\<close>, else \<^verbatim>\<open>streamAlgo(cam, algostr)\<close>.
\<close>

datatype StreamMode = Direct | Algo string

definition mode_of :: "string \<Rightarrow> StreamMode" where
  "mode_of algostr = (if algostr = ''direct'' then Direct else Algo algostr)"

text \<open>Lines 40, 41 and 53 together: \<open>None\<close> is the \<^verbatim>\<open>else\<close> branch of line 66.\<close>

definition resolve :: "string \<Rightarrow> StreamMode option" where
  "resolve path = (if is_stream_path path then Some (mode_of (algostr_of path)) else None)"

section \<open>The capture buffer: \<^verbatim>\<open>io.BytesIO\<close>\<close>

text \<open>
  A \<^verbatim>\<open>BytesIO\<close> is its content and its position. \<^verbatim>\<open>write\<close> overwrites from the position
  and extends the content (padding with zero bytes when the position is beyond the end;
  writing nothing changes nothing); \<^verbatim>\<open>truncate()\<close> cuts the content at the position.
\<close>

record bytesio =
  buf :: bytes
  pos :: nat

definition BytesIO :: bytesio where
  "BytesIO = \<lparr>buf = [], pos = 0\<rparr>"

definition bio_write :: "bytes \<Rightarrow> bytesio \<Rightarrow> bytesio" where
  "bio_write bs s =
     (if bs = [] then s
      else let padded = buf s @ replicate (pos s - length (buf s)) (CHR 0x00)
           in \<lparr>buf = take (pos s) padded @ bs @ drop (pos s + length bs) padded,
               pos = pos s + length bs\<rparr>)"

definition bio_getvalue :: "bytesio \<Rightarrow> bytes" where
  "bio_getvalue s = buf s"

definition bio_seek :: "nat \<Rightarrow> bytesio \<Rightarrow> bytesio" where
  "bio_seek n s = s\<lparr>pos := n\<rparr>"

definition bio_truncate :: "bytesio \<Rightarrow> bytesio" where
  "bio_truncate s = s\<lparr>buf := take (pos s) (buf s)\<rparr>"

section \<open>One multipart part\<close>

text \<open>
  The answers of the response stream while one part is sent: the write of the boundary
  line, the flush of the two header lines by \<^verbatim>\<open>end_headers\<close>, the write of the JPEG
  bytes. \<open>Inl e\<close> is a call that raised \<open>e\<close> (the client has gone).
\<close>

record part_io =
  boundary_w :: "pyexc + unit"
  headers_w :: "pyexc + unit"
  body_w :: "pyexc + unit"

definition jpgboundary :: bytes where
  "jpgboundary = ''--jpgboundary'' @ [CHR 0x0A]"

text \<open>
  Lines 80 to 85 of \<^verbatim>\<open>streamDirect\<close> and lines 114 to 118 of \<^verbatim>\<open>streamAlgo\<close>, which are the
  same five calls: \<open>n\<close> is the value given as \<^verbatim>\<open>Content-length\<close>, \<open>body\<close> the bytes of
  the last write. The result is the calls made and the exception, if one was raised.
\<close>

definition write_part :: "nat \<Rightarrow> bytes \<Rightarrow> part_io \<Rightarrow> ('f, 'v) event list \<times> pyexc option" where
  "write_part n body io =
     (case boundary_w io of
        Inl e \<Rightarrow> ([Write jpgboundary False], Some e)
      | Inr u \<Rightarrow>
         (case headers_w io of
            Inl e \<Rightarrow>
              ([Write jpgboundary True,
                SendHeader ''Content-type'' (PStr ''image/jpeg''),
                SendHeader ''Content-length'' (PInt n),
                EndHeaders False], Some e)
          | Inr u \<Rightarrow>
             (case body_w io of
                Inl e \<Rightarrow>
                  ([Write jpgboundary True,
                    SendHeader ''Content-type'' (PStr ''image/jpeg''),
                    SendHeader ''Content-length'' (PInt n),
                    EndHeaders True,
                    Write body False], Some e)
              | Inr u \<Rightarrow>
                  ([Write jpgboundary True,
                    SendHeader ''Content-type'' (PStr ''image/jpeg''),
                    SendHeader ''Content-length'' (PInt n),
                    EndHeaders True,
                    Write body True], None))))"

section \<open>\<^verbatim>\<open>streamDirect\<close>\<close>

text \<open>
  One step of the generator \<^verbatim>\<open>cam.cam.capture_continuous(stream, "jpeg", ...)\<close>: it writes
  the JPEG bytes of one frame to \<^verbatim>\<open>stream\<close> at its position and yields (\<open>Inr (Some f)\<close>),
  or it is exhausted (\<open>Inr None\<close>), or it raises. Then the answers of the response stream.
\<close>

record direct_iter =
  capture_r :: "pyexc + bytes option"
  direct_w :: part_io

text \<open>
  The \<^verbatim>\<open>for\<close> loop of lines 77 to 87, the stream threaded through. The result is the calls
  made, the stream as the loop left it, and how the loop ended.
\<close>

fun direct_loop :: "bytesio \<Rightarrow> direct_iter list \<Rightarrow> ('f, 'v) event list \<times> bytesio \<times> status" where
  "direct_loop stream [] = ([], stream, Running)"
| "direct_loop stream (it # its) =
     (case capture_r it of
        Inl e \<Rightarrow> ([], stream, Raised e)
      | Inr None \<Rightarrow> ([], stream, Returned)
      | Inr (Some f) \<Rightarrow>
         (let stream1 = bio_write f stream in
          (case write_part (length (bio_getvalue stream1)) (bio_getvalue stream1) (direct_w it) of
             (evs, Some e) \<Rightarrow> (evs, stream1, Raised e)
           | (evs, None) \<Rightarrow>
              (case direct_loop (bio_truncate (bio_seek 0 stream1)) its of
                 (evs', stream', st) \<Rightarrow> (evs @ evs', stream', st)))))"

text \<open>
  Lines 73 to 90. The \<^verbatim>\<open>finally\<close> block runs when the loop has exited, whether it returned
  or raised; \<open>s_jpgQuality\<close> is 80.
\<close>

definition streamDirect :: "direct_iter list \<Rightarrow> ('f, 'v) event list \<times> bytesio \<times> status" where
  "streamDirect its =
     (case direct_loop BytesIO its of
        (evs, stream, st) \<Rightarrow>
          (Print (PStr ''direct streaming'') # CaptureContinuous 80 # evs,
           (if st = Running then stream else bio_truncate (bio_seek 0 stream)),
           st))"

section \<open>\<^verbatim>\<open>streamAlgo\<close>\<close>

text \<open>
  The answers of the collaborators during one iteration of the loop, in the order the loop
  asks: \<^verbatim>\<open>cam.next()\<close>, \<^verbatim>\<open>algo.processFrame\<close> (the detection value, \<open>None\<close> for Python's
  \<^verbatim>\<open>None\<close>, and the annotated frame), \<^verbatim>\<open>s_comm.updateVisionState\<close>, \<^verbatim>\<open>s_comm.UpdateTarget\<close>,
  \<^verbatim>\<open>cv2.imencode\<close> (the flag \<^verbatim>\<open>rc\<close> and the array \<^verbatim>\<open>jpg\<close> of unsigned bytes, for which
  \<^verbatim>\<open>jpg.size\<close> is the number of bytes of \<^verbatim>\<open>jpg.tostring()\<close>), and the response stream.
  An answer the loop does not reach is not read. \<open>Inl e\<close> for \<^verbatim>\<open>processFrame\<close> or
  \<^verbatim>\<open>imencode\<close> also stands for a result that does not unpack into a pair.
\<close>

record ('f, 'v) algo_iter =
  next_r :: "pyexc + 'f"
  process_r :: "pyexc + ('v option \<times> 'f)"
  state_r :: "pyexc + unit"
  target_r :: "pyexc + unit"
  imencode_r :: "pyexc + (bool \<times> bytes)"
  algo_w :: part_io

text \<open>
  Lines 101 to 106; \<open>s_comm\<close> is whether the global \<^verbatim>\<open>s_comm\<close> is not \<^verbatim>\<open>None\<close>.
\<close>

definition comm_update ::
  "bool \<Rightarrow> 'v option \<Rightarrow> ('f, 'v) algo_iter \<Rightarrow> ('f, 'v) event list \<times> pyexc option" where
  "comm_update s_comm val it =
     (if s_comm then
        (case val of
           Some v \<Rightarrow>
             (case state_r it of
                Inl e \<Rightarrow> ([UpdateVisionState ''Acquired''], Some e)
              | Inr u \<Rightarrow>
                 (case target_r it of
                    Inl e \<Rightarrow> ([UpdateVisionState ''Acquired'', UpdateTarget v], Some e)
                  | Inr u \<Rightarrow> ([UpdateVisionState ''Acquired'', UpdateTarget v], None)))
         | None \<Rightarrow>
             (case state_r it of
                Inl e \<Rightarrow> ([UpdateVisionState ''Searching''], Some e)
              | Inr u \<Rightarrow> ([UpdateVisionState ''Searching''], None)))
      else ([], None))"

text \<open>
  The \<^verbatim>\<open>try\<close> body of lines 99 to 119 for the frame \<open>camframe\<close>. The result is the calls
  made, the global \<^verbatim>\<open>s_first\<close> afterwards, and the exception that left the body, if any;
  \<open>None\<close> is both the \<^verbatim>\<open>continue\<close> of line 110 and the end of the body.
\<close>

definition algo_try ::
  "string \<Rightarrow> bool \<Rightarrow> bool \<Rightarrow> 'f \<Rightarrow> ('f, 'v) algo_iter \<Rightarrow>
     ('f, 'v) event list \<times> bool \<times> pyexc option" where
  "algo_try algoselector s_comm s_first camframe it =
     (case process_r it of
        Inl e \<Rightarrow> ([ProcessFrame camframe algoselector], s_first, Some e)
      | Inr (val, frame) \<Rightarrow>
         (case comm_update s_comm val it of
            (cevs, Some e) \<Rightarrow> (ProcessFrame camframe algoselector # cevs, s_first, Some e)
          | (cevs, None) \<Rightarrow>
             (case imencode_r it of
                Inl e \<Rightarrow>
                  (ProcessFrame camframe algoselector # cevs @ [Imencode frame], s_first, Some e)
              | Inr (rc, jpg) \<Rightarrow>
                  (if \<not> rc then
                     (ProcessFrame camframe algoselector # cevs @ [Imencode frame], s_first, None)
                   else
                     (case write_part (length jpg) jpg (algo_w it) of
                        (wevs, Some e) \<Rightarrow>
                          (ProcessFrame camframe algoselector # cevs @ [Imencode frame]
                             @ (if s_first then [Print (PInt (length jpg))] else []) @ wevs,
                           False, Some e)
                      | (wevs, None) \<Rightarrow>
                          (ProcessFrame camframe algoselector # cevs @ [Imencode frame]
                             @ (if s_first then [Print (PInt (length jpg))] else []) @ wevs
                             @ [Sleep 50],
                           False, None))))))"

text \<open>How one iteration of the \<^verbatim>\<open>while True\<close> loop ends.\<close>

datatype flow = Continue | Break | Propagate pyexc

text \<open>
  One iteration, lines 97 to 127: \<^verbatim>\<open>cam.next()\<close> is outside the \<^verbatim>\<open>try\<close>, so its exception
  leaves the loop; the handler of line 121 prints the exception and its traceback, then
  breaks.
\<close>

definition algo_iteration ::
  "string \<Rightarrow> bool \<Rightarrow> bool \<Rightarrow> ('f, 'v) algo_iter \<Rightarrow> ('f, 'v) event list \<times> bool \<times> flow" where
  "algo_iteration algoselector s_comm s_first it =
     (case next_r it of
        Inl e \<Rightarrow> ([CamNext], s_first, Propagate e)
      | Inr camframe \<Rightarrow>
         (case algo_try algoselector s_comm s_first camframe it of
            (evs, s_first', None) \<Rightarrow> (CamNext # evs, s_first', Continue)
          | (evs, s_first', Some e) \<Rightarrow>
              (if catchable e then
                 (CamNext # evs
                    @ [Print (PStr (''algo exception: '' @ str_exc e)), Traceback e],
                  s_first', Break)
               else (CamNext # evs, s_first', Propagate e))))"

fun algo_loop ::
  "string \<Rightarrow> bool \<Rightarrow> bool \<Rightarrow> ('f, 'v) algo_iter list \<Rightarrow> ('f, 'v) event list \<times> bool \<times> status" where
  "algo_loop algoselector s_comm s_first [] = ([], s_first, Running)"
| "algo_loop algoselector s_comm s_first (it # its) =
     (case algo_iteration algoselector s_comm s_first it of
        (evs, s_first', Continue) \<Rightarrow>
          (case algo_loop algoselector s_comm s_first' its of
             (evs', s_first'', st) \<Rightarrow> (evs @ evs', s_first'', st))
      | (evs, s_first', Break) \<Rightarrow> (evs, s_first', Returned)
      | (evs, s_first', Propagate e) \<Rightarrow> (evs, s_first', Raised e))"

text \<open>Lines 92 to 127; \<open>start\<close> is the answer of \<^verbatim>\<open>cam.start()\<close>.\<close>

definition streamAlgo ::
  "string \<Rightarrow> bool \<Rightarrow> bool \<Rightarrow> pyexc + unit \<Rightarrow> ('f, 'v) algo_iter list \<Rightarrow>
     ('f, 'v) event list \<times> bool \<times> status" where
  "streamAlgo algoselector s_comm s_first start its =
     (case start of
        Inl e \<Rightarrow> ([Print (PStr (algoselector @ '' algo streaming'')), CamStart], s_first, Raised e)
      | Inr u \<Rightarrow>
         (case algo_loop algoselector s_comm s_first its of
            (evs, s_first', st) \<Rightarrow>
              (Print (PStr (algoselector @ '' algo streaming'')) # CamStart # evs, s_first', st)))"

section \<open>\<^verbatim>\<open>do_GET\<close>\<close>

definition s_mainPage :: string where
  \<open>s_mainPage =
     [CHR 0x0A] @ ''<html><head>'' @ [CHR 0x0A]
     @ ''<meta content="text/html;charset=utf-8" http-equiv="Content-Type">'' @ [CHR 0x0A]
     @ ''<meta content="utf-8" http-equiv="encoding">'' @ [CHR 0x0A]
     @ ''</head><body>'' @ [CHR 0x0A]
     @ ''<img src="/cam.mjpg"/>'' @ [CHR 0x0A]
     @ ''</body></html>''\<close>

text \<open>
  The answers of the collaborators during one request: the flush of the response head by
  \<^verbatim>\<open>end_headers\<close>; the constructor \<^verbatim>\<open>picam.PiCam(...)\<close>, which raises or returns an object
  with the given truth value; \<^verbatim>\<open>cam.start()\<close>; the iterations of the stream loop of either
  method; \<^verbatim>\<open>cam.stop()\<close>; and, for the landing page, the flush of its head and the write
  of its body.
\<close>

record ('f, 'v) env =
  head_w :: "pyexc + unit"
  open_r :: "pyexc + bool"
  start_r :: "pyexc + unit"
  algo_iters :: "('f, 'v) algo_iter list"
  direct_iters :: "direct_iter list"
  stop_r :: "pyexc + unit"
  page_head_w :: "pyexc + unit"
  page_body_w :: "pyexc + unit"

text \<open>
  The \<^verbatim>\<open>try\<close> body of lines 48 to 56 for the mode \<open>m\<close>. The result is the calls made,
  whether \<^verbatim>\<open>cam\<close> is bound to a true object afterwards, the global \<^verbatim>\<open>s_first\<close>, and how
  the body ended.
\<close>

definition try_stream ::
  "StreamMode \<Rightarrow> bool \<Rightarrow> bool \<Rightarrow> ('f, 'v) env \<Rightarrow> ('f, 'v) event list \<times> bool \<times> bool \<times> status" where
  "try_stream m s_comm s_first env =
     (case open_r env of
        Inl e \<Rightarrow> ([Sleep 1000, PiCam], False, s_first, Raised e)
      | Inr cam \<Rightarrow>
          (if \<not> cam then ([Sleep 1000, PiCam], False, s_first, Raised (Exc ''Hey no camera!''))
           else
             (case m of
                Direct \<Rightarrow>
                  (case streamDirect (direct_iters env) of
                     (evs, stream, st) \<Rightarrow> (Sleep 1000 # PiCam # evs, True, s_first, st))
              | Algo algostr \<Rightarrow>
                  (case streamAlgo algostr s_comm s_first (start_r env) (algo_iters env) of
                     (evs, s_first', st) \<Rightarrow> (Sleep 1000 # PiCam # evs, True, s_first', st)))))"

text \<open>Lines 61 to 65, after the calls \<open>evs\<close>.\<close>

definition teardown ::
  "('f, 'v) event list \<Rightarrow> bool \<Rightarrow> bool \<Rightarrow> ('f, 'v) env \<Rightarrow> ('f, 'v) event list \<times> bool \<times> status" where
  "teardown evs cam s_first env =
     (if cam then
        (case stop_r env of
           Inl e \<Rightarrow>
             (evs @ [Print (PStr ''done streaming ----------------------''), CamStop],
              s_first, Raised e)
         | Inr u \<Rightarrow>
             (evs @ [Print (PStr ''done streaming ----------------------''), CamStop],
              s_first, Returned))
      else
        (evs @ [Print (PStr ''done streaming ----------------------''),
                Print (PStr ''(cam init problem)'')],
         s_first, Returned))"

text \<open>
  Lines 42 to 65: the response head, the \<^verbatim>\<open>try\<close> with its handler \<^verbatim>\<open>except Exception\<close>
  (which prints the exception), then the teardown.
\<close>

definition serve_stream ::
  "StreamMode \<Rightarrow> bool \<Rightarrow> bool \<Rightarrow> ('f, 'v) env \<Rightarrow> ('f, 'v) event list \<times> bool \<times> status" where
  "serve_stream m s_comm s_first env =
     (case head_w env of
        Inl e \<Rightarrow>
          ([SendResponse 200,
            SendHeader ''Content-type'' (PStr ''multipart/x-mixed-replace; boundary=--jpgboundary''),
            EndHeaders False], s_first, Raised e)
      | Inr u \<Rightarrow>
          (case try_stream m s_comm s_first env of
             (evs, cam, s_first', Running) \<Rightarrow>
               (SendResponse 200
                  # SendHeader ''Content-type''
                      (PStr ''multipart/x-mixed-replace; boundary=--jpgboundary'')
                  # EndHeaders True # evs, s_first', Running)
           | (evs, cam, s_first', Returned) \<Rightarrow>
               teardown
                 (SendResponse 200
                    # SendHeader ''Content-type''
                        (PStr ''multipart/x-mixed-replace; boundary=--jpgboundary'')
                    # EndHeaders True # evs) cam s_first' env
           | (evs, cam, s_first', Raised e) \<Rightarrow>
               (if catchable e then
                  teardown
                    (SendResponse 200
                       # SendHeader ''Content-type''
                           (PStr ''multipart/x-mixed-replace; boundary=--jpgboundary'')
                       # EndHeaders True # evs @ [Print (PStr (str_exc e))]) cam s_first' env
                else
                  (SendResponse 200
                     # SendHeader ''Content-type''
                         (PStr ''multipart/x-mixed-replace; boundary=--jpgboundary'')
                     # EndHeaders True # evs, s_first', Raised e))))"

text \<open>Lines 67 to 71: the landing page.\<close>

definition serve_page :: "bool \<Rightarrow> ('f, 'v) env \<Rightarrow> ('f, 'v) event list \<times> bool \<times> status" where
  "serve_page s_first env =
     (case page_head_w env of
        Inl e \<Rightarrow>
          ([SendResponse 200, SendHeader ''Content-type'' (PStr ''text/html''),
            EndHeaders False], s_first, Raised e)
      | Inr u \<Rightarrow>
          (case page_body_w env of
             Inl e \<Rightarrow>
               ([SendResponse 200, SendHeader ''Content-type'' (PStr ''text/html''),
                 EndHeaders True, Write s_mainPage False], s_first, Raised e)
           | Inr u \<Rightarrow>
               ([SendResponse 200, SendHeader ''Content-type'' (PStr ''text/html''),
                 EndHeaders True, Write s_mainPage True], s_first, Returned)))"

text \<open>
  \<^verbatim>\<open>CamHandler.do_GET\<close>, lines 34 to 71, for the request path \<open>path\<close>, with the globals
  \<^verbatim>\<open>s_comm\<close> (whether it is set) and \<^verbatim>\<open>s_first\<close>. The result is the calls made, \<^verbatim>\<open>s_first\<close>
  afterwards, and how the method ended.
\<close>

definition do_GET ::
  "bool \<Rightarrow> bool \<Rightarrow> ('f, 'v) env \<Rightarrow> string \<Rightarrow> ('f, 'v) event list \<times> bool \<times> status" where
  "do_GET s_comm s_first env path =
     (case resolve path of
        Some m \<Rightarrow> serve_stream m s_comm s_first env
      | None \<Rightarrow> serve_page s_first env)"

section \<open>Reading a trace\<close>

text \<open>
  What was done on the response: the calls on it that completed (a header line is
  buffered until the headers end).
\<close>

fun on_wire :: "('f, 'v) event \<Rightarrow> bool" where
  "on_wire (SendResponse c) = True"
| "on_wire (SendHeader k v) = True"
| "on_wire (EndHeaders ok) = ok"
| "on_wire (Write bs ok) = ok"
| "on_wire e = False"

definition wire :: "('f, 'v) event list \<Rightarrow> ('f, 'v) event list" where
  "wire evs = filter on_wire evs"

text \<open>The calls on the control channel.\<close>

fun on_comm :: "('f, 'v) event \<Rightarrow> bool" where
  "on_comm (UpdateVisionState s) = True"
| "on_comm (UpdateTarget v) = True"
| "on_comm e = False"

definition comm_calls :: "('f, 'v) event list \<Rightarrow> ('f, 'v) event list" where
  "comm_calls evs = filter on_comm evs"

text \<open>What was logged: the prints and the tracebacks.\<close>

fun on_log :: "('f, 'v) event \<Rightarrow> bool" where
  "on_log (Print v) = True"
| "on_log (Traceback e) = True"
| "on_log e = False"

definition logged :: "('f, 'v) event list \<Rightarrow> ('f, 'v) event list" where
  "logged evs = filter on_log evs"

text \<open>One part on the wire, for the JPEG bytes \<open>jpg\<close>.\<close>

definition part :: "bytes \<Rightarrow> ('f, 'v) event list" where
  "part jpg =
     [Write jpgboundary True,
      SendHeader ''Content-type'' (PStr ''image/jpeg''),
      SendHeader ''Content-length'' (PInt (length jpg)),
      EndHeaders True,
      Write jpg True]"

text \<open>The calls of \<^verbatim>\<open>algo.processFrame\<close>.\<close>

fun on_process :: "('f, 'v) event \<Rightarrow> bool" where
  "on_process (ProcessFrame f a) = True"
| "on_process e = False"

definition process_calls :: "('f, 'v) event list \<Rightarrow> ('f, 'v) event list" where
  "process_calls evs = filter on_process evs"

text \<open>The response head of a stream, lines 42 to 45, once flushed.\<close>

definition stream_head :: "('f, 'v) event list" where
  "stream_head =
     [SendResponse 200,
      SendHeader ''Content-type'' (PStr ''multipart/x-mixed-replace; boundary=--jpgboundary''),
      EndHeaders True]"

section \<open>The words of the specification\<close>

text \<open>
  The final path segment is what follows the last \<open>/\<close>; its stem is the part before the
  first \<open>.\<close>. A path ends in a suffix in the sense of \<^const>\<open>suffix\<close>.
\<close>

definition final_segment :: "string \<Rightarrow> string" where
  "final_segment path = rev (takeWhile (\<lambda>c. c \<noteq> CHR ''/'') (rev path))"

definition stem :: "string \<Rightarrow> string" where
  "stem path = takeWhile (\<lambda>c. c \<noteq> CHR ''.'') (final_segment path)"

text \<open>The first write of a part that fails, if one does.\<close>

definition write_failure :: "part_io \<Rightarrow> pyexc option" where
  "write_failure io =
     (case boundary_w io of
        Inl e \<Rightarrow> Some e
      | Inr u \<Rightarrow>
         (case headers_w io of
            Inl e \<Rightarrow> Some e
          | Inr u \<Rightarrow> (case body_w io of Inl e \<Rightarrow> Some e | Inr u \<Rightarrow> None)))"

text \<open>
  Direct mode: an iteration in which the camera captures a frame, the frame it captures,
  and an iteration that also writes its part to the end. The frames the camera captured
  are those up to the first step of the generator that yields none.
\<close>

definition captures :: "direct_iter \<Rightarrow> bool" where
  "captures it = (case capture_r it of Inl e \<Rightarrow> False | Inr None \<Rightarrow> False | Inr (Some f) \<Rightarrow> True)"

definition frame_of :: "direct_iter \<Rightarrow> bytes" where
  "frame_of it = (case capture_r it of Inl e \<Rightarrow> [] | Inr None \<Rightarrow> [] | Inr (Some f) \<Rightarrow> f)"

definition direct_ok :: "direct_iter \<Rightarrow> bool" where
  "direct_ok it \<longleftrightarrow> captures it \<and> write_failure (direct_w it) = None"

fun captured :: "direct_iter list \<Rightarrow> bytes list" where
  "captured [] = []"
| "captured (it # its) = (if captures it then frame_of it # captured its else [])"

text \<open>
  Algo mode: an iteration that pulls a frame, has it processed, publishes without failure
  and gets the encoder's answer with the flag \<open>rc\<close>; the JPEG bytes of that answer; an
  iteration that encodes (\<open>rc\<close> true) and writes its part to the end; an iteration whose
  encoding fails (\<open>rc\<close> false). The encoded frames are those of the iterations whose
  encoder answers with a true flag, in the order of the iterations.
\<close>

definition reaches_encoder :: "bool \<Rightarrow> ('f, 'v) algo_iter \<Rightarrow> bool \<Rightarrow> bool" where
  "reaches_encoder s_comm it rc =
     (case next_r it of
        Inl e \<Rightarrow> False
      | Inr camframe \<Rightarrow>
         (case process_r it of
            Inl e \<Rightarrow> False
          | Inr (val, frame) \<Rightarrow>
              snd (comm_update s_comm val it :: ('f, 'v) event list \<times> pyexc option) = None
              \<and> (case imencode_r it of Inl e \<Rightarrow> False | Inr (rc', jpg) \<Rightarrow> rc' = rc)))"

definition jpg_of :: "('f, 'v) algo_iter \<Rightarrow> bytes" where
  "jpg_of it = (case imencode_r it of Inl e \<Rightarrow> [] | Inr (rc, jpg) \<Rightarrow> jpg)"

definition delivers :: "bool \<Rightarrow> ('f, 'v) algo_iter \<Rightarrow> bool" where
  "delivers s_comm it \<longleftrightarrow> reaches_encoder s_comm it True \<and> write_failure (algo_w it) = None"

definition skips :: "bool \<Rightarrow> ('f, 'v) algo_iter \<Rightarrow> bool" where
  "skips s_comm it \<longleftrightarrow> reaches_encoder s_comm it False"

text \<open>An iteration after which the loop goes on: it wrote its part or skipped its frame.\<close>

definition goes_on :: "bool \<Rightarrow> ('f, 'v) algo_iter \<Rightarrow> bool" where
  "goes_on s_comm it \<longleftrightarrow> delivers s_comm it \<or> skips s_comm it"

fun encoded :: "('f, 'v) algo_iter list \<Rightarrow> bytes list" where
  "encoded [] = []"
| "encoded (it # its) =
     (case imencode_r it of
        Inl e \<Rightarrow> encoded its
      | Inr (rc, jpg) \<Rightarrow> if rc then jpg # encoded its else encoded its)"

section \<open>Concrete scripts\<close>

text \<open>
  Scripts on which the properties below are evaluated. Frames and detection values are
  numbers here; the handler never looks inside them.
\<close>

definition io_good :: part_io where
  "io_good = \<lparr>boundary_w = Inr (), headers_w = Inr (), body_w = Inr ()\<rparr>"

definition io_gone :: part_io where
  "io_gone = \<lparr>boundary_w = Inr (), headers_w = Inr (),
              body_w = Inl (Exc ''[Errno 32] Broken pipe'')\<rparr>"

definition it_good :: "(nat, nat) algo_iter" where
  "it_good = \<lparr>next_r = Inr 1, process_r = Inr (Some 7, 2), state_r = Inr (),
              target_r = Inr (), imencode_r = Inr (True, ''JPEG''), algo_w = io_good\<rparr>"

definition it_searching :: "(nat, nat) algo_iter" where
  "it_searching = \<lparr>next_r = Inr 1, process_r = Inr (None, 2), state_r = Inr (),
              target_r = Inr (), imencode_r = Inr (True, ''JPG''), algo_w = io_good\<rparr>"

definition it_unencoded :: "(nat, nat) algo_iter" where
  "it_unencoded = \<lparr>next_r = Inr 1, process_r = Inr (Some 7, 2), state_r = Inr (),
              target_r = Inr (), imencode_r = Inr (False, []), algo_w = io_good\<rparr>"

definition it_undetected :: "(nat, nat) algo_iter" where
  "it_undetected = \<lparr>next_r = Inr 1, process_r = Inl (Exc ''bad frame''), state_r = Inr (),
              target_r = Inr (), imencode_r = Inr (True, ''JPEG''), algo_w = io_good\<rparr>"

definition it_gone :: "(nat, nat) algo_iter" where
  "it_gone = \<lparr>next_r = Inr 1, process_r = Inr (Some 7, 2), state_r = Inr (),
              target_r = Inr (), imencode_r = Inr (True, ''JPEG''), algo_w = io_gone\<rparr>"

definition dit_good :: "bytes \<Rightarrow> direct_iter" where
  "dit_good f = \<lparr>capture_r = Inr (Some f), direct_w = io_good\<rparr>"

definition dit_gone :: "bytes \<Rightarrow> direct_iter" where
  "dit_gone f = \<lparr>capture_r = Inr (Some f), direct_w = io_gone\<rparr>"

definition dit_end :: direct_iter where
  "dit_end = \<lparr>capture_r = Inr None, direct_w = io_good\<rparr>"

definition env0 :: "(nat, nat) env" where
  "env0 = \<lparr>head_w = Inr (), open_r = Inr True, start_r = Inr (), algo_iters = [],
           direct_iters = [], stop_r = Inr (), page_head_w = Inr (), page_body_w = Inr ()\<rparr>"

definition env_detect :: "(nat, nat) env" where
  "env_detect = env0\<lparr>algo_iters := [it_good, it_good, it_undetected, it_good]\<rparr>"

definition env_no_camera :: "(nat, nat) env" where
  "env_no_camera = env0\<lparr>open_r := Inl (Exc ''camera busy'')\<rparr>"

definition env_stop_fails :: "(nat, nat) env" where
  "env_stop_fails = env_detect\<lparr>stop_r := Inl (Exc ''stop failed'')\<rparr>"

definition env_gone :: "(nat, nat) env" where
  "env_gone = env0\<lparr>algo_iters := [it_good, it_gone, it_good]\<rparr>"

definition env_skip_gone :: "(nat, nat) env" where
  "env_skip_gone = env0\<lparr>algo_iters := [it_unencoded, it_good, it_unencoded, it_gone, it_good]\<rparr>"

definition env_direct_gone :: "(nat, nat) env" where
  "env_direct_gone = env0\<lparr>direct_iters := [dit_good ''AB'', dit_gone ''CDE'', dit_good ''F'']\<rparr>"

section \<open>Properties\<close>

subsection \<open>The request path\<close>

lemma endswith_suffix: "endswith s suf \<longleftrightarrow> suffix suf s"
proof
  assume "endswith s suf"
  then have "s = take (length s - length suf) s @ suf"
    by (metis append_take_drop_id endswith_def)
  then show "suffix suf s" by (metis suffixI)
next
  assume "suffix suf s"
  then obtain zs where "s = zs @ suf" by (auto simp: suffix_def)
  then show "endswith s suf" by (simp add: endswith_def)
qed

lemma rfind_ge: "- 1 \<le> rfind c s"
  by (induction s) (auto simp: Let_def)

lemma rfind_nonneg: "0 \<le> rfind c s \<longleftrightarrow> c \<in> set s"
  by (induction s) (auto simp: Let_def)

lemma drop_rfind: "drop (nat (rfind c p + 1)) p = rev (takeWhile (\<lambda>x. x \<noteq> c) (rev p))"
proof (induction p)
  case Nil
  then show ?case by simp
next
  case (Cons x xs)
  show ?case
  proof (cases "c \<in> set xs")
    case True
    then have r: "0 \<le> rfind c xs" by (simp add: rfind_nonneg)
    then have "nat (rfind c xs + 1 + 1) = Suc (nat (rfind c xs + 1))" by simp
    moreover have "takeWhile (\<lambda>x. x \<noteq> c) (rev xs @ [x]) = takeWhile (\<lambda>x. x \<noteq> c) (rev xs)"
      using True by (intro takeWhile_append1[of c]) auto
    ultimately show ?thesis using r Cons by (simp add: Let_def)
  next
    case False
    then have r: "rfind c xs = - 1" using rfind_nonneg[of c xs] rfind_ge[of c xs] by simp
    have "takeWhile (\<lambda>x. x \<noteq> c) (rev xs @ [x]) = rev xs @ takeWhile (\<lambda>x. x \<noteq> c) [x]"
      using False by (intro takeWhile_append2) auto
    then show ?thesis using r by (simp add: Let_def)
  qed
qed

lemma basename_final_segment: "basename p = final_segment p"
  by (simp add: basename_def final_segment_def drop_rfind)

lemma split_chr_nonempty: "split_chr c s \<noteq> []"
  by (induction s) (auto split: list.splits)

lemma split_chr_hd: "split_chr c s ! 0 = takeWhile (\<lambda>x. x \<noteq> c) s"
proof (induction s)
  case Nil
  then show ?case by simp
next
  case (Cons x xs)
  then show ?case using split_chr_nonempty[of c xs]
    by (cases "split_chr c xs") auto
qed

lemma algostr_stem: "algostr_of path = stem path"
  by (simp add: algostr_of_def stem_def split_chr_hd basename_final_segment)

lemma is_stream_path_suffix:
  "is_stream_path path \<longleftrightarrow> suffix ''.mjpg'' path \<or> suffix ''.mjpeg'' path"
  by (simp add: is_stream_path_def endswith_suffix)

subsection \<open>Reading a trace\<close>

lemma wire_simps [simp]:
  "wire [] = []"
  "wire (e # evs) = (if on_wire e then e # wire evs else wire evs)"
  "wire (evs @ evs') = wire evs @ wire evs'"
  by (simp_all add: wire_def)

lemma comm_calls_simps [simp]:
  "comm_calls [] = []"
  "comm_calls (e # evs) = (if on_comm e then e # comm_calls evs else comm_calls evs)"
  "comm_calls (evs @ evs') = comm_calls evs @ comm_calls evs'"
  by (simp_all add: comm_calls_def)

lemma process_calls_simps [simp]:
  "process_calls [] = []"
  "process_calls (e # evs) = (if on_process e then e # process_calls evs else process_calls evs)"
  "process_calls (evs @ evs') = process_calls evs @ process_calls evs'"
  by (simp_all add: process_calls_def)

subsection \<open>One part\<close>

lemma write_part_snd: "snd (write_part n body io) = write_failure io"
  by (simp add: write_part_def write_failure_def split: sum.splits)

lemma write_part_ok:
  "write_failure io = None \<Longrightarrow> write_part (length body) body io = (part body, None)"
  by (simp add: write_part_def write_failure_def part_def split: sum.splits)

lemma write_part_prefix: "prefix (wire (fst (write_part (length body) body io))) (part body)"
  by (simp add: write_part_def part_def split: sum.splits)

lemma write_part_no_calls:
  "comm_calls (fst (write_part n body io)) = []"
  "process_calls (fst (write_part n body io)) = []"
  "count_list (fst (write_part n body io)) CamStop = 0"
  "count_list (fst (write_part n body io)) PiCam = 0"
  by (simp_all add: write_part_def split: sum.splits)

lemma part_no_calls:
  "comm_calls (part body) = []"
  "process_calls (part body) = []"
  "count_list (part body) CamStop = 0"
  "wire (part body) = part body"
  by (simp_all add: part_def)

lemma comm_update_no_calls:
  "wire (fst (comm_update c val it)) = []"
  "process_calls (fst (comm_update c val it)) = []"
  "count_list (fst (comm_update c val it)) CamStop = 0"
  "count_list (fst (comm_update c val it)) PiCam = 0"
  by (simp_all add: comm_update_def split: sum.splits option.splits)


subsection \<open>One iteration of the Algo loop\<close>

lemma write_part_D:
  fixes evs :: "('f, 'v) event list"
  assumes "write_part n body io = (evs, r)"
  shows "write_failure io = r \<and> comm_calls evs = [] \<and> process_calls evs = []
         \<and> count_list evs CamStop = 0 \<and> count_list evs PiCam = 0"
proof -
  have "evs = fst (write_part n body io)"
    and "r = snd (write_part n body io :: ('f, 'v) event list \<times> pyexc option)"
    using assms by simp_all
  then show ?thesis by (simp add: write_part_snd write_part_no_calls)
qed

lemma write_part_wire_D:
  fixes evs :: "('f, 'v) event list"
  assumes "write_part (length body) body io = (evs, r)"
  shows "prefix (wire evs) (part body) \<and> write_failure io = r"
proof -
  have "evs = fst (write_part (length body) body io)"
    and "r = snd (write_part (length body) body io :: ('f, 'v) event list \<times> pyexc option)"
    using assms by simp_all
  then show ?thesis by (simp add: write_part_prefix write_part_snd)
qed

lemma comm_update_D:
  assumes "comm_update c val it = (evs, r)"
  shows "snd (comm_update c val it) = r \<and> wire evs = [] \<and> process_calls evs = []
         \<and> count_list evs CamStop = 0 \<and> count_list evs PiCam = 0"
proof -
  have "evs = fst (comm_update c val it)" and "r = snd (comm_update c val it)"
    using assms by simp_all
  then show ?thesis by (simp add: comm_update_no_calls)
qed

lemma algo_iteration_delivers:
  assumes "delivers c it"
  shows "snd (algo_iteration sel c f it) = (False, Continue)
         \<and> wire (fst (algo_iteration sel c f it)) = part (jpg_of it)
         \<and> length (process_calls (fst (algo_iteration sel c f it))) = 1"
  using assms
  by (auto simp: delivers_def reaches_encoder_def algo_iteration_def algo_try_def jpg_of_def
      write_part_ok part_no_calls dest!: comm_update_D
      split: sum.splits prod.splits option.splits)

lemma algo_iteration_skips:
  assumes "skips c it"
  shows "snd (algo_iteration sel c f it) = (f, Continue)
         \<and> wire (fst (algo_iteration sel c f it)) = []
         \<and> length (process_calls (fst (algo_iteration sel c f it))) = 1"
  using assms
  by (auto simp: skips_def reaches_encoder_def algo_iteration_def algo_try_def
      dest!: comm_update_D
      split: sum.splits prod.splits option.splits)

lemma algo_iteration_Continue:
  "snd (snd (algo_iteration sel c f it)) = Continue \<longleftrightarrow> delivers c it \<or> skips c it"
  by (auto simp: delivers_def skips_def reaches_encoder_def algo_iteration_def algo_try_def
      dest!: write_part_D
      split: sum.splits prod.splits option.splits if_splits)

lemma algo_iteration_prefix:
  "prefix (wire (fst (algo_iteration sel c f it))) (concat (map part (encoded [it])))"
  by (auto simp: algo_iteration_def algo_try_def
      dest!: comm_update_D write_part_wire_D
      split: sum.splits prod.splits option.splits if_splits)

lemma algo_iteration_no_cam:
  "count_list (fst (algo_iteration sel c f it)) CamStop = 0
   \<and> count_list (fst (algo_iteration sel c f it)) PiCam = 0"
  by (auto simp: algo_iteration_def algo_try_def
      dest!: comm_update_D write_part_D
      split: sum.splits prod.splits option.splits if_splits)


subsection \<open>The Algo loop\<close>

lemma algo_loop_Continue:
  assumes "snd (snd (algo_iteration sel c f it)) = Continue"
  shows "algo_loop sel c f (it # its) =
           (fst (algo_iteration sel c f it)
              @ fst (algo_loop sel c (fst (snd (algo_iteration sel c f it))) its),
            snd (algo_loop sel c (fst (snd (algo_iteration sel c f it))) its))"
  using assms by (cases "algo_iteration sel c f it") (auto split: prod.splits)

lemma algo_loop_stops:
  assumes "snd (snd (algo_iteration sel c f it)) \<noteq> Continue"
  shows "algo_loop sel c f (it # its) =
           (fst (algo_iteration sel c f it), fst (snd (algo_iteration sel c f it)),
            (case snd (snd (algo_iteration sel c f it)) of
               Propagate e \<Rightarrow> Raised e | _ \<Rightarrow> Returned))"
  using assms by (cases "algo_iteration sel c f it") (auto split: prod.splits flow.splits)

lemma encoded_Cons: "encoded (it # its) = encoded [it] @ encoded its"
  by (simp split: sum.splits prod.splits)

lemma encoded_delivers: "delivers c it \<Longrightarrow> encoded [it] = [jpg_of it]"
  by (auto simp: delivers_def reaches_encoder_def jpg_of_def split: sum.splits prod.splits)

lemma encoded_skips: "skips c it \<Longrightarrow> encoded [it] = []"
  by (auto simp: skips_def reaches_encoder_def split: sum.splits prod.splits)

lemma algo_iteration_Continue_wire:
  assumes "snd (snd (algo_iteration sel c f it)) = Continue"
  shows "wire (fst (algo_iteration sel c f it)) = concat (map part (encoded [it]))"
proof -
  from assms have "delivers c it \<or> skips c it" by (simp add: algo_iteration_Continue)
  then show ?thesis
  proof
    assume d: "delivers c it"
    show ?thesis
      unfolding encoded_delivers[OF d] using algo_iteration_delivers[OF d, of sel f] by simp
  next
    assume k: "skips c it"
    show ?thesis
      unfolding encoded_skips[OF k] using algo_iteration_skips[OF k, of sel f] by simp
  qed
qed

lemma algo_loop_prefix:
  "prefix (wire (fst (algo_loop sel c f its))) (concat (map part (encoded its)))"
proof (induction its arbitrary: f)
  case Nil
  then show ?case by simp
next
  case (Cons it its)
  let ?step = "algo_iteration sel c f it"
  have enc: "concat (map part (encoded (it # its)))
      = concat (map part (encoded [it])) @ concat (map part (encoded its))"
    by (subst encoded_Cons) simp
  show ?case
  proof (cases "snd (snd ?step) = Continue")
    case True
    show ?thesis
      unfolding enc algo_loop_Continue[OF True]
      using Cons.IH[of "fst (snd ?step)"] algo_iteration_Continue_wire[OF True]
      by (simp del: encoded.simps)
  next
    case False
    show ?thesis
      unfolding enc algo_loop_stops[OF False]
      using algo_iteration_prefix[of sel c f it] by simp
  qed
qed

lemma algo_loop_delivers:
  assumes "list_all (delivers c) pre"
  shows "algo_loop sel c f (pre @ rest) =
           (fst (algo_loop sel c f pre) @ fst (algo_loop sel c (f \<and> pre = []) rest),
            snd (algo_loop sel c (f \<and> pre = []) rest))
         \<and> wire (fst (algo_loop sel c f pre)) = concat (map part (map jpg_of pre))
         \<and> length (process_calls (fst (algo_loop sel c f pre))) = length pre"
  using assms
proof (induction pre arbitrary: f)
  case Nil
  then show ?case by simp
next
  case (Cons it pre)
  then have d: "delivers c it" and ds: "list_all (delivers c) pre" by simp_all
  note step = algo_iteration_delivers[OF d, of sel f]
  have cont: "snd (snd (algo_iteration sel c f it)) = Continue"
    and first: "fst (snd (algo_iteration sel c f it)) = False"
    using step by simp_all
  have l1: "algo_loop sel c f (it # pre @ rest) =
      (fst (algo_iteration sel c f it) @ fst (algo_loop sel c False (pre @ rest)),
       snd (algo_loop sel c False (pre @ rest)))"
    using algo_loop_Continue[OF cont, of "pre @ rest"] by (simp only: first)
  have l2: "algo_loop sel c f (it # pre) =
      (fst (algo_iteration sel c f it) @ fst (algo_loop sel c False pre),
       snd (algo_loop sel c False pre))"
    using algo_loop_Continue[OF cont, of pre] by (simp only: first)
  show ?case
    using Cons.IH[OF ds, of False] step
    by (simp add: l1 l2 del: algo_loop.simps)
qed

lemma algo_loop_no_cam:
  "count_list (fst (algo_loop sel c f its)) CamStop = 0
   \<and> count_list (fst (algo_loop sel c f its)) PiCam = 0"
proof (induction its arbitrary: f)
  case Nil
  then show ?case by simp
next
  case (Cons it its)
  show ?case
  proof (cases "snd (snd (algo_iteration sel c f it)) = Continue")
    case True
    show ?thesis
      using Cons.IH[of "fst (snd (algo_iteration sel c f it))"] algo_iteration_no_cam[of sel c f it]
      by (simp add: algo_loop_Continue[OF True] del: algo_loop.simps)
  next
    case False
    show ?thesis
      using algo_iteration_no_cam[of sel c f it]
      by (simp add: algo_loop_stops[OF False] del: algo_loop.simps)
  qed
qed

subsection \<open>The capture buffer and the Direct loop\<close>

lemma bio_reset: "bio_truncate (bio_seek 0 s) = BytesIO"
  by (simp add: bio_truncate_def bio_seek_def BytesIO_def)

lemma bio_write_fresh: "bio_getvalue (bio_write f BytesIO) = f"
  by (simp add: bio_getvalue_def bio_write_def BytesIO_def Let_def)

lemma direct_loop_ok:
  assumes "direct_ok it"
  shows "direct_loop s (it # its) =
           (case direct_loop BytesIO its of
              (evs, r) \<Rightarrow> (part (bio_getvalue (bio_write (frame_of it) s)) @ evs, r))"
  using assms
  by (auto simp: direct_ok_def captures_def frame_of_def write_part_ok bio_reset Let_def
      split: sum.splits option.splits prod.splits)

lemma direct_loop_not_ok:
  assumes "\<not> direct_ok it"
  shows "prefix (wire (fst (direct_loop BytesIO (it # its))))
           (concat (map part (captured [it])))
         \<and> snd (snd (direct_loop BytesIO (it # its))) \<noteq> Running"
  using assms
  by (auto simp: direct_ok_def captures_def frame_of_def bio_write_fresh Let_def
      dest!: write_part_wire_D
      split: sum.splits option.splits prod.splits)

lemma captured_Cons: "direct_ok it \<Longrightarrow> captured (it # its) = frame_of it # captured its"
  by (simp add: direct_ok_def)

lemma captured_prefix: "prefix (captured [it]) (captured (it # its))"
  by simp

lemma direct_loop_prefix:
  "prefix (wire (fst (direct_loop BytesIO its :: ('f, 'v) event list \<times> bytesio \<times> status)))
     (concat (map part (captured its)))"
proof (induction its)
  case Nil
  then show ?case by simp
next
  case (Cons it its)
  show ?case
  proof (cases "direct_ok it")
    case True
    obtain evs :: "('f, 'v) event list" and r where rest: "direct_loop BytesIO its = (evs, r)"
      by (cases "direct_loop BytesIO its :: ('f, 'v) event list \<times> bytesio \<times> status") auto
    then have "prefix (wire evs) (concat (map part (captured its)))"
      using Cons.IH by simp
    then show ?thesis
      by (simp add: direct_loop_ok[OF True] rest captured_Cons[OF True] bio_write_fresh
          part_no_calls del: direct_loop.simps captured.simps)
  next
    case False
    have "prefix (concat (map part (captured [it]))) (concat (map part (captured (it # its))))"
      by simp
    with direct_loop_not_ok[OF False, of its] show ?thesis
      using prefix_order.trans by blast
  qed
qed

lemma direct_loop_all_ok:
  assumes "list_all direct_ok its"
  shows "direct_loop BytesIO its = (concat (map part (map frame_of its)), BytesIO, Running)"
  using assms
proof (induction its)
  case Nil
  then show ?case by simp
next
  case (Cons it its)
  then have ok: "direct_ok it" and "list_all direct_ok its" by simp_all
  with Cons.IH show ?case
    by (simp add: direct_loop_ok[OF ok] bio_write_fresh del: direct_loop.simps)
qed

lemma direct_loop_no_calls:
  "comm_calls (fst (direct_loop s its)) = []
   \<and> process_calls (fst (direct_loop s its)) = []
   \<and> count_list (fst (direct_loop s its)) CamStop = 0
   \<and> count_list (fst (direct_loop s its)) PiCam = 0"
proof (induction its arbitrary: s)
  case Nil
  then show ?case by simp
next
  case (Cons it its)
  show ?case
    using Cons.IH[of "bio_truncate (bio_seek 0 (bio_write (frame_of it) s))"]
    by (auto simp: frame_of_def Let_def dest!: write_part_D
        split: sum.splits option.splits prod.splits)
qed

subsection \<open>The landing page\<close>

lemma serve_page_no_cam: "PiCam \<notin> set (fst (serve_page f env))"
  by (simp add: serve_page_def split: sum.splits)

lemma serve_page_ok:
  "page_head_w env = Inr () \<Longrightarrow> page_body_w env = Inr () \<Longrightarrow>
   serve_page f env =
     ([SendResponse 200, SendHeader ''Content-type'' (PStr ''text/html''),
       EndHeaders True, Write s_mainPage True], f, Returned)"
  by (simp add: serve_page_def)

lemma stem_eval:
  "stem ''/direct.mjpg'' = ''direct''" "stem ''/cam.mjpeg'' = ''cam''"
  by (simp_all add: stem_def final_segment_def)

lemma suffix_eval:
  "suffix ''.mjpg'' ''/direct.mjpg''" "suffix ''.mjpeg'' ''/cam.mjpeg''"
  "\<not> suffix ''.mjpg'' ''/''" "\<not> suffix ''.mjpeg'' ''/''"
  by (simp_all add: endswith_suffix[symmetric] endswith_def)

subsection \<open>The session\<close>

lemma streamDirect_no_calls:
  "comm_calls (fst (streamDirect its)) = []
   \<and> process_calls (fst (streamDirect its)) = []
   \<and> count_list (fst (streamDirect its)) CamStop = 0
   \<and> count_list (fst (streamDirect its)) PiCam = 0"
  using direct_loop_no_calls[of BytesIO its]
  by (simp add: streamDirect_def case_prod_beta)

lemma streamAlgo_no_cam:
  "count_list (fst (streamAlgo sel c f start its)) CamStop = 0
   \<and> count_list (fst (streamAlgo sel c f start its)) PiCam = 0"
  using algo_loop_no_cam[of sel c f its]
  by (simp add: streamAlgo_def case_prod_beta split: sum.splits)

lemma try_stream_cam:
  "count_list (fst (try_stream m c f env)) CamStop = 0
   \<and> count_list (fst (try_stream m c f env)) PiCam = 1
   \<and> fst (snd (try_stream m c f env)) = (open_r env = Inr True)"
  using streamDirect_no_calls[of "direct_iters env"]
    streamAlgo_no_cam[of _ c f "start_r env" "algo_iters env"]
  by (auto simp: try_stream_def case_prod_beta split: sum.splits StreamMode.splits)

lemma teardown_cam:
  "count_list (fst (teardown evs cam f env)) CamStop
     = count_list evs CamStop + (if cam then 1 else 0)
   \<and> count_list (fst (teardown evs cam f env)) PiCam = count_list evs PiCam"
  by (simp add: teardown_def split: sum.splits)

lemma algo_iteration_detection_fails:
  assumes "next_r it = Inr camframe" and "process_r it = Inl e" and "catchable e"
  shows "algo_iteration sel c f it =
           ([CamNext, ProcessFrame camframe sel,
             Print (PStr (''algo exception: '' @ str_exc e)), Traceback e], f, Break)"
  using assms by (simp add: algo_iteration_def algo_try_def)

lemma serve_stream_Returned:
  assumes "head_w env = Inr ()" and "try_stream m c f env = (evs, cam, f', Returned)"
  shows "serve_stream m c f env = teardown (stream_head @ evs) cam f' env"
  using assms by (simp add: serve_stream_def stream_head_def)

lemma teardown_cam_True:
  "teardown evs True f env =
     (evs @ [Print (PStr ''done streaming ----------------------''), CamStop], f,
      case stop_r env of Inl e \<Rightarrow> Raised e | Inr u \<Rightarrow> Returned)"
  by (simp add: teardown_def split: sum.splits)

subsection \<open>Evaluation on the concrete scripts\<close>

lemmas script_defs =
  env0_def env_detect_def env_no_camera_def it_good_def it_searching_def it_unencoded_def
  it_undetected_def it_gone_def io_good_def io_gone_def dit_good_def dit_gone_def dit_end_def

lemmas algo_defs =
  try_stream_def streamAlgo_def algo_iteration_def algo_try_def comm_update_def write_part_def

lemma resolve_eval:
  "resolve ''/cam.mjpg'' = Some (Algo ''cam'')"
  "resolve ''/direct.mjpg'' = Some Direct"
  by (simp_all add: resolve_def is_stream_path_def endswith_def mode_of_def algostr_of_def
      basename_def Let_def)

lemma delivers_it_good: "delivers c it_good"
  by (simp add: delivers_def reaches_encoder_def write_failure_def comm_update_def
      it_good_def io_good_def)

lemma jpg_of_it_good: "jpg_of it_good = ''JPEG''"
  by (simp add: jpg_of_def it_good_def)

subsection \<open>The stream methods\<close>

lemma streamDirect_wire: "wire (fst (streamDirect its)) = wire (fst (direct_loop BytesIO its))"
  by (simp add: streamDirect_def case_prod_beta)

lemma streamAlgo_wire:
  "wire (fst (streamAlgo sel c f start its))
     = (case start of Inl e \<Rightarrow> [] | Inr u \<Rightarrow> wire (fst (algo_loop sel c f its)))"
  by (simp add: streamAlgo_def case_prod_beta split: sum.splits)

lemma wire_parts: "wire (concat (map part fs)) = concat (map part fs)"
  by (induction fs) (simp_all add: part_no_calls)

lemma streamDirect_prefix:
  "prefix (wire (fst (streamDirect dits))) (concat (map part (captured dits)))"
  by (simp add: streamDirect_wire direct_loop_prefix)

lemma streamDirect_all_ok:
  "list_all direct_ok dits
     \<Longrightarrow> wire (fst (streamDirect dits)) = concat (map part (map frame_of dits))"
  by (simp add: streamDirect_wire direct_loop_all_ok wire_parts del: map_map)

lemma streamAlgo_prefix:
  "prefix (wire (fst (streamAlgo sel c f start its))) (concat (map part (encoded its)))"
  using algo_loop_prefix[of sel c f its] by (simp add: streamAlgo_wire split: sum.splits)

lemma streamAlgo_all_ok:
  "list_all (delivers c) its
     \<Longrightarrow> wire (fst (streamAlgo sel c f (Inr ()) its)) = concat (map part (map jpg_of its))"
  using algo_loop_delivers[of c its sel f "[]"] by (simp add: streamAlgo_wire del: map_map)

lemma algo_iteration_skips_no_write:
  assumes "skips c it"
  shows "Write bs ok \<notin> set (fst (algo_iteration sel c f it))"
  using assms
  by (auto simp: skips_def reaches_encoder_def algo_iteration_def algo_try_def comm_update_def
      split: sum.splits prod.splits option.splits if_splits)

lemma comm_update_comm: "comm_calls (fst (comm_update c val it)) = fst (comm_update c val it)"
  by (simp add: comm_update_def split: sum.splits option.splits)

lemma algo_iteration_comm:
  assumes "next_r it = Inr cf" and "process_r it = Inr (val, fr)"
  shows "comm_calls (fst (algo_iteration sel c f it)) = fst (comm_update c val it)"
  using assms
  by (auto simp: algo_iteration_def algo_try_def case_prod_beta write_part_no_calls
      comm_update_comm split: sum.splits option.splits)

lemma serve_stream_Direct_comm: "comm_calls (fst (serve_stream Direct c f env)) = []"
  using streamDirect_no_calls[of "direct_iters env"]
  by (auto simp: serve_stream_def try_stream_def teardown_def case_prod_beta
      split: sum.splits status.splits)

lemma delivers_it_searching: "delivers c it_searching"
  by (simp add: delivers_def reaches_encoder_def write_failure_def comm_update_def
      it_searching_def io_good_def)

lemma jpg_of_it_searching: "jpg_of it_searching = ''JPG''"
  by (simp add: jpg_of_def it_searching_def)

lemma skips_it_unencoded: "skips c it_unencoded"
  by (simp add: skips_def reaches_encoder_def comm_update_def it_unencoded_def)

lemma direct_ok_dit_good: "direct_ok (dit_good fr)" "frame_of (dit_good fr) = fr"
  by (simp_all add: direct_ok_def captures_def frame_of_def write_failure_def dit_good_def
      io_good_def)

subsection \<open>A failed write\<close>

lemmas script_defs2 =
  script_defs env_stop_fails_def env_gone_def env_direct_gone_def env_skip_gone_def

lemmas run_defs = do_GET_def serve_stream_def teardown_def algo_defs streamDirect_def

lemma algo_iteration_write_fails:
  assumes "reaches_encoder c it True" and "write_failure (algo_w it) = Some e"
    and "catchable e"
  shows "\<exists>evs. algo_iteration sel c f it =
           (evs @ [Print (PStr (''algo exception: '' @ str_exc e)), Traceback e], False, Break)"
  using assms
  by (auto simp: reaches_encoder_def algo_iteration_def algo_try_def
      dest!: write_part_D split: sum.splits prod.splits option.splits)

lemma direct_loop_append:
  fixes rest :: "direct_iter list"
  assumes "list_all direct_ok pre"
  shows "(direct_loop BytesIO (pre @ rest) :: ('f, 'v) event list \<times> bytesio \<times> status) =
           (case direct_loop BytesIO rest of
              (evs, r) \<Rightarrow> (concat (map part (map frame_of pre)) @ evs, r))"
  using assms
proof (induction pre)
  case Nil
  then show ?case by simp
next
  case (Cons it pre)
  then have ok: "direct_ok it" and "list_all direct_ok pre" by simp_all
  with Cons.IH show ?case
    by (simp add: direct_loop_ok[OF ok] bio_write_fresh case_prod_beta del: direct_loop.simps)
qed

lemma direct_loop_write_fails:
  assumes "captures it" and "write_failure (direct_w it) = Some e"
  shows "\<exists>evs s. (direct_loop BytesIO (it # rest) :: ('f, 'v) event list \<times> bytesio \<times> status)
           = (evs, s, Raised e)"
  using assms
  by (auto simp: captures_def Let_def dest!: write_part_D
      split: sum.splits prod.splits option.splits)

lemma serve_stream_Raised:
  assumes "head_w env = Inr ()" and "try_stream m c f env = (evs, cam, f', Raised e)"
    and "catchable e"
  shows "serve_stream m c f env = teardown (stream_head @ evs @ [Print (PStr (str_exc e))]) cam f' env"
  using assms by (simp add: serve_stream_def stream_head_def)

lemma algo_loop_goes_on:
  assumes "list_all (goes_on c) pre"
  shows "algo_loop sel c f (pre @ rest) =
           (fst (algo_loop sel c f pre)
              @ fst (algo_loop sel c (fst (snd (algo_loop sel c f pre))) rest),
            snd (algo_loop sel c (fst (snd (algo_loop sel c f pre))) rest))"
  using assms
proof (induction pre arbitrary: f)
  case Nil
  then show ?case by simp
next
  case (Cons it pre)
  then have g: "goes_on c it" and gs: "list_all (goes_on c) pre" by simp_all
  let ?f' = "fst (snd (algo_iteration sel c f it))"
  have cont: "snd (snd (algo_iteration sel c f it)) = Continue"
    using g by (simp add: algo_iteration_Continue goes_on_def)
  have l1: "algo_loop sel c f (it # pre @ rest) =
      (fst (algo_iteration sel c f it) @ fst (algo_loop sel c ?f' (pre @ rest)),
       snd (algo_loop sel c ?f' (pre @ rest)))"
    using algo_loop_Continue[OF cont, of "pre @ rest"] .
  have l2: "algo_loop sel c f (it # pre) =
      (fst (algo_iteration sel c f it) @ fst (algo_loop sel c ?f' pre),
       snd (algo_loop sel c ?f' pre))"
    using algo_loop_Continue[OF cont, of pre] .
  show ?case
    using Cons.IH[OF gs, of ?f']
    by (simp add: l1 l2 del: algo_loop.simps)
qed

lemma algo_disconnect:
  assumes "resolve path = Some (Algo sel)"
    and "head_w env = Inr ()" and "open_r env = Inr True" and "start_r env = Inr ()"
    and "algo_iters env = pre @ it # rest"
    and "list_all (goes_on c) pre"
    and "reaches_encoder c it True" and "write_failure (algo_w it) = Some e"
    and "catchable e"
  shows "suffix [Print (PStr (''algo exception: '' @ str_exc e)), Traceback e,
                 Print (PStr ''done streaming ----------------------''), CamStop]
           (fst (do_GET c f env path))
         \<and> snd (snd (do_GET c f env path))
             = (case stop_r env of Inl e' \<Rightarrow> Raised e' | Inr u \<Rightarrow> Returned)"
proof -
  let ?f1 = "fst (snd (algo_loop sel c f pre))"
  let ?pre = "fst (algo_loop sel c f pre)"
  let ?log = "[Print (PStr (''algo exception: '' @ str_exc e)), Traceback e]"
  obtain evs where it: "algo_iteration sel c ?f1 it = (evs @ ?log, False, Break)"
    using algo_iteration_write_fails[OF assms(7-9), of sel ?f1] by blast
  let ?evs = "Sleep 1000 # PiCam # Print (PStr (sel @ '' algo streaming'')) # CamStart
                # ?pre @ evs @ ?log"
  note pre = algo_loop_goes_on[OF assms(6), of sel f "it # rest"]
  have last: "algo_loop sel c ?f1 (it # rest) = (evs @ ?log, False, Returned)"
    using it by simp
  have loop: "algo_loop sel c f (pre @ it # rest) = (?pre @ evs @ ?log, False, Returned)"
    using pre last by simp
  have "try_stream (Algo sel) c f env = (?evs, True, False, Returned)"
    using assms(3-5) loop by (simp add: try_stream_def streamAlgo_def)
  then have "serve_stream (Algo sel) c f env = teardown (stream_head @ ?evs) True False env"
    using assms(2) by (rule serve_stream_Returned[rotated])
  then have run: "do_GET c f env path =
      (stream_head @ ?evs @ [Print (PStr ''done streaming ----------------------''), CamStop],
       False, case stop_r env of Inl e' \<Rightarrow> Raised e' | Inr u \<Rightarrow> Returned)"
    using assms(1) by (simp add: do_GET_def teardown_cam_True)
  show ?thesis by (simp add: run suffix_def)
qed

lemma direct_disconnect:
  fixes env :: "('f, 'v) env"
  assumes "resolve path = Some Direct"
    and "head_w env = Inr ()" and "open_r env = Inr True"
    and "direct_iters env = pre @ it # rest"
    and "list_all direct_ok pre"
    and "captures it" and "write_failure (direct_w it) = Some e"
    and "catchable e"
  shows "suffix [Print (PStr (str_exc e)),
                 Print (PStr ''done streaming ----------------------''), CamStop]
           (fst (do_GET c f env path))
         \<and> snd (snd (do_GET c f env path))
             = (case stop_r env of Inl e' \<Rightarrow> Raised e' | Inr u \<Rightarrow> Returned)"
proof -
  obtain evs :: "('f, 'v) event list" and s
    where it: "direct_loop BytesIO (it # rest) = (evs, s, Raised e)"
    using direct_loop_write_fails[OF assms(6,7), of rest] by blast
  let ?pre = "concat (map part (map frame_of pre)) :: ('f, 'v) event list"
  have loop: "direct_loop BytesIO (pre @ it # rest) = (?pre @ evs, s, Raised e)"
    using direct_loop_append[OF assms(5), of "it # rest", where 'f = 'f and 'v = 'v] it
    by (simp del: direct_loop.simps)
  let ?evs = "Sleep 1000 # PiCam # Print (PStr ''direct streaming'') # CaptureContinuous 80
                # ?pre @ evs"
  have "try_stream Direct c f env = (?evs, True, f, Raised e)"
    using assms(3,4) loop by (simp add: try_stream_def streamDirect_def del: direct_loop.simps)
  then have "serve_stream Direct c f env
      = teardown (stream_head @ ?evs @ [Print (PStr (str_exc e))]) True f env"
    using assms(2,8) serve_stream_Raised by blast
  then have run: "do_GET c f env path =
      (stream_head @ ?evs @ [Print (PStr (str_exc e)),
         Print (PStr ''done streaming ----------------------''), CamStop],
       f, case stop_r env of Inl e' \<Rightarrow> Raised e' | Inr u \<Rightarrow> Returned)"
    using assms(1) by (simp add: do_GET_def teardown_cam_True)
  show ?thesis by (simp add: run suffix_def del: map_map)
qed

section \<open>The claims\<close>

text \<open>
  C2. For every request path: if it ends in \<open>.mjpg\<close> or \<open>.mjpeg\<close> and the stem of its
  final segment (the part before the first \<open>.\<close>) is exactly \<open>direct\<close>, the handler runs
  in Direct mode; if it ends so with any other stem, it runs in Algo mode with that stem,
  unchanged, as the selector; for every other path it answers with the landing page and
  never constructs the camera.
\<close>

theorem path_resolution:
  "((suffix ''.mjpg'' path \<or> suffix ''.mjpeg'' path) \<and> stem path = ''direct''
      \<longrightarrow> resolve path = Some Direct
          \<and> do_GET c f env path = serve_stream Direct c f env)
   \<and> ((suffix ''.mjpg'' path \<or> suffix ''.mjpeg'' path) \<and> stem path \<noteq> ''direct''
      \<longrightarrow> resolve path = Some (Algo (stem path))
          \<and> do_GET c f env path = serve_stream (Algo (stem path)) c f env)
   \<and> (\<not> (suffix ''.mjpg'' path \<or> suffix ''.mjpeg'' path)
      \<longrightarrow> resolve path = None
          \<and> do_GET c f env path = serve_page f env
          \<and> PiCam \<notin> set (fst (do_GET c f env path))
          \<and> (page_head_w env = Inr () \<and> page_body_w env = Inr ()
              \<longrightarrow> do_GET c f env path =
                    ([SendResponse 200, SendHeader ''Content-type'' (PStr ''text/html''),
                      EndHeaders True, Write s_mainPage True], f, Returned)))"
  by (simp add: do_GET_def resolve_def is_stream_path_suffix algostr_stem mode_of_def
      serve_page_no_cam serve_page_ok)

theorem path_resolution_witness:
  "resolve ''/direct.mjpg'' = Some Direct
   \<and> resolve ''/cam.mjpeg'' = Some (Algo ''cam'')
   \<and> resolve ''/'' = None
   \<and> do_GET False True env0 ''/'' =
        ([SendResponse 200, SendHeader ''Content-type'' (PStr ''text/html''),
          EndHeaders True, Write s_mainPage True], True, Returned)"
proof -
  have d: "(suffix ''.mjpg'' ''/direct.mjpg'' \<or> suffix ''.mjpeg'' ''/direct.mjpg'')
      \<and> stem ''/direct.mjpg'' = ''direct''"
    by (simp add: stem_eval suffix_eval)
  have a: "(suffix ''.mjpg'' ''/cam.mjpeg'' \<or> suffix ''.mjpeg'' ''/cam.mjpeg'')
      \<and> stem ''/cam.mjpeg'' \<noteq> ''direct''"
    by (simp add: stem_eval suffix_eval)
  have l: "\<not> (suffix ''.mjpg'' ''/'' \<or> suffix ''.mjpeg'' ''/'')"
    by (simp add: suffix_eval)
  have p: "page_head_w env0 = Inr () \<and> page_body_w env0 = Inr ()"
    by (simp add: env0_def)
  have "resolve ''/direct.mjpg'' = Some Direct"
    using path_resolution[of "''/direct.mjpg''" False True env0] d by blast
  moreover have "resolve ''/cam.mjpeg'' = Some (Algo ''cam'')"
    using path_resolution[of "''/cam.mjpeg''" False True env0] a stem_eval(2) by metis
  moreover have "resolve ''/'' = None"
    using path_resolution[of "''/''" False True env0] l by blast
  moreover have "do_GET False True env0 ''/'' =
        ([SendResponse 200, SendHeader ''Content-type'' (PStr ''text/html''),
          EndHeaders True, Write s_mainPage True], True, Returned)"
    using path_resolution[of "''/''" False True env0] l p by blast
  ultimately show ?thesis by simp
qed

text \<open>
  C1. For every streaming session that has exited, on each of its exit paths (the loop
  ended, the client disconnected, the detection routine, the frame pull or the encoder
  failed: the \<^verbatim>\<open>try\<close> body returned or raised an \<^verbatim>\<open>Exception\<close>), \<^verbatim>\<open>cam.stop()\<close> is
  invoked exactly once when the camera was opened, and not at all when the acquisition
  failed (the constructor raised or returned a false object); the constructor is invoked
  once.
\<close>

theorem camera_released_once:
  assumes "resolve path = Some m"
    and "head_w env = Inr ()"
    and "snd (snd (snd (try_stream m c f env))) \<noteq> Running"
    and "\<forall>e. snd (snd (snd (try_stream m c f env))) = Raised e \<longrightarrow> catchable e"
  shows "count_list (fst (do_GET c f env path)) CamStop = (if open_r env = Inr True then 1 else 0)
         \<and> count_list (fst (do_GET c f env path)) PiCam = 1"
proof -
  obtain evs cam f' st where t: "try_stream m c f env = (evs, cam, f', st)"
    by (cases "try_stream m c f env") auto
  have cam: "count_list evs CamStop = 0" "count_list evs PiCam = 1" "cam = (open_r env = Inr True)"
    using try_stream_cam[of m c f env] t by simp_all
  have st: "st \<noteq> Running" "\<And>e. st = Raised e \<Longrightarrow> catchable e"
    using assms(3,4) t by simp_all
  show ?thesis
  proof (cases st)
    case Running
    with st show ?thesis by simp
  next
    case Returned
    then show ?thesis
      using assms(1,2) t cam
      by (simp add: do_GET_def serve_stream_def teardown_cam)
  next
    case (Raised e)
    then have "catchable e" using st by simp
    then show ?thesis
      using assms(1,2) t cam Raised
      by (simp add: do_GET_def serve_stream_def teardown_cam)
  qed
qed


theorem camera_released_once_witness:
  "count_list (fst (do_GET True True env_detect ''/cam.mjpg'')) CamStop = 1
   \<and> count_list (fst (do_GET True True env_no_camera ''/cam.mjpg'')) CamStop = 0"
proof -
  have s1: "snd (snd (snd (try_stream (Algo ''cam'') True True env_detect))) = Returned"
    by (simp add: algo_defs script_defs)
  have s2: "snd (snd (snd (try_stream (Algo ''cam'') True True env_no_camera)))
      = Raised (Exc ''camera busy'')"
    by (simp add: algo_defs script_defs)
  have h: "head_w env_detect = Inr ()" "head_w env_no_camera = Inr ()"
    "open_r env_detect = Inr True" "open_r env_no_camera \<noteq> Inr True"
    by (simp_all add: script_defs)
  have "count_list (fst (do_GET True True env_detect ''/cam.mjpg'')) CamStop = 1"
    using camera_released_once[OF resolve_eval(1) h(1), of True True] s1 h(3) by simp
  moreover have "count_list (fst (do_GET True True env_no_camera ''/cam.mjpg'')) CamStop = 0"
    using camera_released_once[OF resolve_eval(1) h(2), of True True] s2 h(4) by simp
  ultimately show ?thesis by simp
qed


text \<open>
  C4. In Algo mode, when \<^verbatim>\<open>algo.processFrame\<close> raises an \<^verbatim>\<open>Exception\<close> on iteration \<open>k\<close>
  of a stream whose \<open>k - 1\<close> earlier iterations (\<open>pre\<close>) each wrote their part: exactly
  those \<open>k - 1\<close> parts are on the wire and nothing after them, whatever the script holds
  for later iterations; \<^verbatim>\<open>processFrame\<close> was called \<open>k\<close> times, so the failing call was
  not retried; the failure is printed with its traceback; the loop ends there, the
  teardown follows at once, and \<^verbatim>\<open>cam.stop()\<close> is invoked exactly once.
\<close>

theorem detection_failure_ends_session:
  assumes "resolve path = Some (Algo sel)"
    and "head_w env = Inr ()" and "open_r env = Inr True" and "start_r env = Inr ()"
    and "algo_iters env = pre @ it # rest"
    and "list_all (delivers c) pre"
    and "next_r it = Inr camframe" and "process_r it = Inl e" and "catchable e"
  shows "wire (fst (do_GET c f env path)) = stream_head @ concat (map part (map jpg_of pre))
         \<and> length (process_calls (fst (do_GET c f env path))) = length pre + 1
         \<and> suffix [ProcessFrame camframe sel,
                    Print (PStr (''algo exception: '' @ str_exc e)), Traceback e,
                    Print (PStr ''done streaming ----------------------''), CamStop]
              (fst (do_GET c f env path))
         \<and> count_list (fst (do_GET c f env path)) CamStop = 1
         \<and> snd (snd (do_GET c f env path))
             = (case stop_r env of Inl e' \<Rightarrow> Raised e' | Inr u \<Rightarrow> Returned)"
proof -
  let ?f1 = "f \<and> pre = []"
  let ?pre = "fst (algo_loop sel c f pre)"
  let ?last = "[CamNext, ProcessFrame camframe sel,
                Print (PStr (''algo exception: '' @ str_exc e)), Traceback e]"
  let ?evs = "Sleep 1000 # PiCam # Print (PStr (sel @ '' algo streaming'')) # CamStart
                # ?pre @ ?last"
  note pre = algo_loop_delivers[OF assms(6), of sel f "it # rest"]
  have last: "algo_loop sel c ?f1 (it # rest) = (?last, ?f1, Returned)"
    using algo_iteration_detection_fails[OF assms(7-9), of sel c ?f1] by simp
  have loop: "algo_loop sel c f (pre @ it # rest) = (?pre @ ?last, ?f1, Returned)"
    using pre last by simp
  have "try_stream (Algo sel) c f env = (?evs, True, ?f1, Returned)"
    using assms(3-5) loop by (simp add: try_stream_def streamAlgo_def)
  then have "serve_stream (Algo sel) c f env = teardown (stream_head @ ?evs) True ?f1 env"
    using assms(2) by (rule serve_stream_Returned[rotated])
  then have run: "do_GET c f env path =
      (stream_head @ ?evs @ [Print (PStr ''done streaming ----------------------''), CamStop],
       ?f1, case stop_r env of Inl e' \<Rightarrow> Raised e' | Inr u \<Rightarrow> Returned)"
    using assms(1) by (simp add: do_GET_def teardown_cam_True)
  have nocam: "count_list ?pre CamStop = 0"
    using algo_loop_no_cam[of sel c f pre] by simp
  have w: "wire (fst (do_GET c f env path)) = stream_head @ concat (map part (map jpg_of pre))"
    using pre by (simp add: run stream_head_def)
  have p: "length (process_calls (fst (do_GET c f env path))) = length pre + 1"
    using pre by (simp add: run stream_head_def)
  have s: "suffix [ProcessFrame camframe sel,
                    Print (PStr (''algo exception: '' @ str_exc e)), Traceback e,
                    Print (PStr ''done streaming ----------------------''), CamStop]
              (fst (do_GET c f env path))"
    by (simp add: run suffix_def)
  have n: "count_list (fst (do_GET c f env path)) CamStop = 1"
    using nocam by (simp add: run stream_head_def)
  show ?thesis using w p s n by (simp add: run)
qed

theorem detection_failure_ends_session_witness:
  "wire (fst (do_GET True True env_detect ''/cam.mjpg''))
     = stream_head @ part ''JPEG'' @ part ''JPEG''
   \<and> length (process_calls (fst (do_GET True True env_detect ''/cam.mjpg''))) = 3
   \<and> count_list (fst (do_GET True True env_detect ''/cam.mjpg'')) CamStop = 1
   \<and> snd (snd (do_GET True True env_detect ''/cam.mjpg'')) = Returned"
proof -
  have e: "head_w env_detect = Inr ()" "open_r env_detect = Inr True"
    "start_r env_detect = Inr ()"
    "algo_iters env_detect = [it_good, it_good] @ it_undetected # [it_good]"
    "stop_r env_detect = Inr ()"
    by (simp_all add: env_detect_def env0_def)
  have i: "next_r it_undetected = Inr 1" "process_r it_undetected = Inl (Exc ''bad frame'')"
    "catchable (Exc ''bad frame'')"
    by (simp_all add: it_undetected_def)
  have p: "list_all (delivers True) [it_good, it_good]"
    by (simp add: delivers_it_good)
  show ?thesis
    using detection_failure_ends_session[OF resolve_eval(1) e(1-4) p i, of True]
    by (simp add: jpg_of_it_good e(5))
qed

text \<open>
  C3. In either mode, what reaches the response stream is a prefix of the parts of the
  frames in the order they were captured, each part being the boundary line
  \<open>--jpgboundary\<close> with its newline, the header \<open>Content-type: image/jpeg\<close>, the header
  \<open>Content-length\<close> with the exact byte length of the JPEG buffer, the end of the headers,
  and the JPEG bytes; when every iteration writes its part, it is all of these parts.
\<close>

theorem parts_framed_in_capture_order:
  fixes its :: "('f, 'v) algo_iter list"
  shows
  "prefix (wire (fst (streamDirect dits :: ('f, 'v) event list \<times> bytesio \<times> status)))
     (concat (map part (captured dits)))
   \<and> (list_all direct_ok dits
        \<longrightarrow> wire (fst (streamDirect dits :: ('f, 'v) event list \<times> bytesio \<times> status))
              = concat (map part (map frame_of dits)))
   \<and> prefix (wire (fst (streamAlgo sel c f start its))) (concat (map part (encoded its)))
   \<and> (start = Inr () \<and> list_all (delivers c) its
        \<longrightarrow> wire (fst (streamAlgo sel c f start its)) = concat (map part (map jpg_of its)))
   \<and> (part jpg :: ('f, 'v) event list) =
        [Write jpgboundary True,
         SendHeader ''Content-type'' (PStr ''image/jpeg''),
         SendHeader ''Content-length'' (PInt (length jpg)),
         EndHeaders True,
         Write jpg True]"
  by (simp add: streamDirect_prefix streamDirect_all_ok streamAlgo_prefix streamAlgo_all_ok
      part_def del: map_map)

theorem parts_framed_in_capture_order_witness:
  "wire (fst (streamDirect [dit_good ''AB'', dit_good ''CDE'']
            :: (nat, nat) event list \<times> bytesio \<times> status))
     = part ''AB'' @ part ''CDE''
   \<and> wire (fst (streamAlgo ''cam'' True True (Inr ()) [it_good, it_searching]))
     = part ''JPEG'' @ part ''JPG''"
proof -
  have d: "list_all direct_ok [dit_good ''AB'', dit_good ''CDE'']"
    by (simp add: direct_ok_dit_good)
  have a: "Inr () = (Inr () :: pyexc + unit)
      \<and> list_all (delivers True) [it_good, it_searching]"
    by (simp add: delivers_it_good delivers_it_searching)
  note t = parts_framed_in_capture_order[where dits = "[dit_good ''AB'', dit_good ''CDE'']"
      and sel = "''cam''" and c = True and f = True and start = "Inr ()"
      and its = "[it_good, it_searching]" and jpg = "[]"]
  have "wire (fst (streamDirect [dit_good ''AB'', dit_good ''CDE'']
            :: (nat, nat) event list \<times> bytesio \<times> status))
     = concat (map part (map frame_of [dit_good ''AB'', dit_good ''CDE'']))"
    using t d by blast
  moreover have "wire (fst (streamAlgo ''cam'' True True (Inr ()) [it_good, it_searching]))
     = concat (map part (map jpg_of [it_good, it_searching]))"
    using t a by blast
  ultimately show ?thesis
    by (simp add: direct_ok_dit_good jpg_of_it_good jpg_of_it_searching)
qed

text \<open>
  C5. In Algo mode, an iteration whose encoding fails (\<^verbatim>\<open>cv2.imencode\<close> returns a false
  flag) writes nothing to the response stream and does not end the session: the loop goes
  on with the next iteration as if it started there. It is the only failure that an
  iteration recovers from: the loop goes on after an iteration exactly when the iteration
  wrote its whole part or its encoding returned a false flag.
\<close>

theorem encode_failure_skips_frame:
  "(skips c it \<longrightarrow>
      wire (fst (algo_iteration sel c f it)) = []
      \<and> (\<forall>bs ok. Write bs ok \<notin> set (fst (algo_iteration sel c f it)))
      \<and> snd (algo_iteration sel c f it) = (f, Continue)
      \<and> algo_loop sel c f (it # its) =
          (fst (algo_iteration sel c f it) @ fst (algo_loop sel c f its),
           snd (algo_loop sel c f its)))
   \<and> (snd (snd (algo_iteration sel c f it)) = Continue \<longleftrightarrow> delivers c it \<or> skips c it)"
proof -
  have "algo_loop sel c f (it # its) =
          (fst (algo_iteration sel c f it) @ fst (algo_loop sel c f its),
           snd (algo_loop sel c f its))" if k: "skips c it"
    using algo_loop_Continue[of sel c f it its] algo_iteration_skips[OF k, of sel f] by simp
  then show ?thesis
    using algo_iteration_skips[of c it sel f] algo_iteration_skips_no_write[of c it _ _ sel f]
      algo_iteration_Continue[of sel c f it]
    by blast
qed

theorem encode_failure_skips_frame_witness:
  "wire (fst (algo_loop ''cam'' True True [it_unencoded, it_good])) = part ''JPEG''
   \<and> snd (snd (algo_iteration ''cam'' True True it_unencoded)) = Continue"
proof -
  have g: "wire (fst (algo_loop ''cam'' True True [it_good])) = part ''JPEG''"
    using algo_loop_delivers[of True "[it_good]" "''cam''" True "[]"]
    by (simp add: delivers_it_good jpg_of_it_good del: algo_loop.simps)
  show ?thesis
    using encode_failure_skips_frame[of True it_unencoded "''cam''" True "[it_good]"]
      skips_it_unencoded[of True] g
    by (simp del: algo_loop.simps)
qed

text \<open>
  C6. With the control channel configured, an Algo iteration whose detection value is
  present invokes \<^verbatim>\<open>updateVisionState("Acquired")\<close> and then \<^verbatim>\<open>UpdateTarget(value)\<close> (the
  first call returning), and nothing else on the channel; an iteration whose value is
  absent invokes only \<^verbatim>\<open>updateVisionState("Searching")\<close>. Without the channel no call is
  made, and Direct mode never makes one.
\<close>

theorem control_channel_calls:
  "(next_r it = Inr cf \<and> process_r it = Inr (Some v, fr) \<and> state_r it = Inr ()
      \<longrightarrow> comm_calls (fst (algo_iteration sel True f it))
            = [UpdateVisionState ''Acquired'', UpdateTarget v])
   \<and> (next_r it = Inr cf \<and> process_r it = Inr (None, fr)
      \<longrightarrow> comm_calls (fst (algo_iteration sel True f it)) = [UpdateVisionState ''Searching''])
   \<and> comm_calls (fst (algo_iteration sel False f it)) = []
   \<and> comm_calls (fst (streamDirect dits)) = []
   \<and> (resolve path = Some Direct \<longrightarrow> comm_calls (fst (do_GET c f env path)) = [])"
proof -
  have a: "comm_calls (fst (algo_iteration sel True f it))
            = [UpdateVisionState ''Acquired'', UpdateTarget v]"
    if "next_r it = Inr cf" "process_r it = Inr (Some v, fr)" "state_r it = Inr ()"
    using that by (simp add: algo_iteration_comm comm_update_def split: sum.splits)
  have s: "comm_calls (fst (algo_iteration sel True f it)) = [UpdateVisionState ''Searching'']"
    if "next_r it = Inr cf" "process_r it = Inr (None, fr)"
    using that by (simp add: algo_iteration_comm comm_update_def split: sum.splits)
  have n: "comm_calls (fst (algo_iteration sel False f it)) = []"
    by (auto simp: algo_iteration_def algo_try_def comm_update_def case_prod_beta
        write_part_no_calls split: sum.splits option.splits)
  have d: "comm_calls (fst (do_GET c f env path)) = []" if "resolve path = Some Direct"
    using that by (simp add: do_GET_def serve_stream_Direct_comm)
  show ?thesis using a s n d by (simp add: streamDirect_no_calls)
qed

theorem control_channel_calls_witness:
  "comm_calls (fst (algo_iteration ''cam'' True True it_good))
     = [UpdateVisionState ''Acquired'', UpdateTarget 7]
   \<and> comm_calls (fst (algo_iteration ''cam'' True True it_searching))
     = [UpdateVisionState ''Searching'']
   \<and> comm_calls (fst (do_GET True True env0 ''/direct.mjpg'')) = []"
proof -
  have g: "next_r it_good = Inr 1 \<and> process_r it_good = Inr (Some 7, 2)
      \<and> state_r it_good = Inr ()"
    by (simp add: it_good_def)
  have s: "next_r it_searching = Inr 1 \<and> process_r it_searching = Inr (None, 2)"
    by (simp add: it_searching_def)
  have "comm_calls (fst (algo_iteration ''cam'' True True it_good))
     = [UpdateVisionState ''Acquired'', UpdateTarget 7]"
    using control_channel_calls[where it = it_good and cf = 1 and v = 7 and fr = 2
        and sel = "''cam''" and f = True and dits = "[]" and path = "[]" and c = True
        and env = env0] g
    by blast
  moreover have "comm_calls (fst (algo_iteration ''cam'' True True it_searching))
     = [UpdateVisionState ''Searching'']"
    using control_channel_calls[where it = it_searching and cf = 1 and v = 7 and fr = 2
        and sel = "''cam''" and f = True and dits = "[]" and path = "[]" and c = True
        and env = env0] s
    by blast
  moreover have "comm_calls (fst (do_GET True True env0 ''/direct.mjpg'')) = []"
    using control_channel_calls[where it = it_good and cf = 1 and v = 7 and fr = 2
        and sel = "''cam''" and f = True and dits = "[]" and path = "''/direct.mjpg''"
        and c = True and env = env0] resolve_eval(2)
    by blast
  ultimately show ?thesis by simp
qed

text \<open>
  C10. In Direct mode the capture buffer is reset (seek to 0, truncate) after every part
  written, whatever it held, so that the next iteration starts from the empty buffer and
  the part of an iteration carries exactly the bytes of the frame captured in it; and the
  buffer is reset again when the loop has exited, however it exited.
\<close>

theorem capture_buffer_reset:
  fixes its :: "direct_iter list"
  shows
  "(direct_ok it \<longrightarrow>
      (direct_loop stream (it # its) :: ('f, 'v) event list \<times> bytesio \<times> status) =
        (case direct_loop BytesIO its of
           (evs, r) \<Rightarrow> (part (bio_getvalue (bio_write (frame_of it) stream)) @ evs, r)))
   \<and> bio_truncate (bio_seek 0 stream) = BytesIO
   \<and> bio_getvalue (bio_write fr BytesIO) = fr
   \<and> (list_all direct_ok its \<longrightarrow>
        fst (streamDirect its :: ('f, 'v) event list \<times> bytesio \<times> status) =
          Print (PStr ''direct streaming'') # CaptureContinuous 80
            # concat (map part (map frame_of its)))
   \<and> (case (streamDirect its :: ('f, 'v) event list \<times> bytesio \<times> status) of
         (evs, stream', st) \<Rightarrow> st \<noteq> Running \<longrightarrow> stream' = BytesIO)"
  by (simp add: direct_loop_ok bio_reset bio_write_fresh direct_loop_all_ok streamDirect_def
      case_prod_beta del: direct_loop.simps map_map)

theorem capture_buffer_reset_witness:
  "fst (streamDirect [dit_good ''AB'', dit_good ''CDE'']
            :: (nat, nat) event list \<times> bytesio \<times> status)
     = Print (PStr ''direct streaming'') # CaptureContinuous 80 # part ''AB'' @ part ''CDE''
   \<and> fst (snd (streamDirect [dit_good ''AB'', dit_end]
            :: (nat, nat) event list \<times> bytesio \<times> status)) = BytesIO"
proof -
  have d: "list_all direct_ok [dit_good ''AB'', dit_good ''CDE'']"
    by (simp add: direct_ok_dit_good)
  have e: "snd (snd (streamDirect [dit_good ''AB'', dit_end]
            :: (nat, nat) event list \<times> bytesio \<times> status)) \<noteq> Running"
    by (simp add: streamDirect_def write_part_def dit_good_def dit_end_def io_good_def Let_def)
  have "fst (streamDirect [dit_good ''AB'', dit_good ''CDE'']
            :: (nat, nat) event list \<times> bytesio \<times> status)
     = Print (PStr ''direct streaming'') # CaptureContinuous 80
         # concat (map part (map frame_of [dit_good ''AB'', dit_good ''CDE'']))"
    using capture_buffer_reset[where 'f = nat and 'v = nat and it = dit_end
        and stream = BytesIO and fr = "[]" and its = "[dit_good ''AB'', dit_good ''CDE'']"] d
    by blast
  moreover have "fst (snd (streamDirect [dit_good ''AB'', dit_end]
            :: (nat, nat) event list \<times> bytesio \<times> status)) = BytesIO"
    using capture_buffer_reset[where 'f = nat and 'v = nat and it = dit_end
        and stream = BytesIO and fr = "[]" and its = "[dit_good ''AB'', dit_end]"] e
    by (simp add: case_prod_beta del: direct_loop.simps)
  ultimately show ?thesis by (simp add: direct_ok_dit_good)
qed

text \<open>
  C7, as the code has it. \<^verbatim>\<open>cam.stop()\<close> is the last call of a streaming request and stands
  outside every \<^verbatim>\<open>try\<close> block: in a session that opened the camera and has exited (the
  \<^verbatim>\<open>try\<close> body returned or raised an \<^verbatim>\<open>Exception\<close>), when \<^verbatim>\<open>cam.stop()\<close> raises, its
  exception leaves \<^verbatim>\<open>do_GET\<close> and nothing is printed after the call; when it returns,
  \<^verbatim>\<open>do_GET\<close> returns.
\<close>

theorem release_failure_propagates:
  assumes "resolve path = Some m"
    and "head_w env = Inr ()"
    and "open_r env = Inr True"
    and "snd (snd (snd (try_stream m c f env))) \<noteq> Running"
    and "\<forall>e. snd (snd (snd (try_stream m c f env))) = Raised e \<longrightarrow> catchable e"
  shows "snd (snd (do_GET c f env path))
           = (case stop_r env of Inl e \<Rightarrow> Raised e | Inr u \<Rightarrow> Returned)
         \<and> last (fst (do_GET c f env path)) = CamStop"
proof -
  obtain evs cam f' st where t: "try_stream m c f env = (evs, cam, f', st)"
    by (cases "try_stream m c f env") auto
  have cam: "cam" using try_stream_cam[of m c f env] t assms(3) by simp
  have st: "st \<noteq> Running" "\<And>e. st = Raised e \<Longrightarrow> catchable e"
    using assms(4,5) t by simp_all
  show ?thesis
  proof (cases st)
    case Running
    with st show ?thesis by simp
  next
    case Returned
    then show ?thesis
      using assms(1,2) t cam by (simp add: do_GET_def serve_stream_def teardown_cam_True)
  next
    case (Raised e)
    then have "catchable e" using st by simp
    then show ?thesis
      using assms(1,2) t cam Raised
      by (simp add: do_GET_def serve_stream_def teardown_cam_True)
  qed
qed

theorem release_failure_propagates_witness:
  "snd (snd (do_GET True True env_stop_fails ''/cam.mjpg'')) = Raised (Exc ''stop failed'')
   \<and> snd (snd (do_GET True True env_detect ''/cam.mjpg'')) = Returned"
proof -
  have s1: "snd (snd (snd (try_stream (Algo ''cam'') True True env_stop_fails))) = Returned"
    by (simp add: algo_defs script_defs2)
  have s2: "snd (snd (snd (try_stream (Algo ''cam'') True True env_detect))) = Returned"
    by (simp add: algo_defs script_defs2)
  have h: "head_w env_stop_fails = Inr ()" "open_r env_stop_fails = Inr True"
    "head_w env_detect = Inr ()" "open_r env_detect = Inr True"
    "stop_r env_stop_fails = Inl (Exc ''stop failed'')" "stop_r env_detect = Inr ()"
    by (simp_all add: script_defs2)
  have "snd (snd (do_GET True True env_stop_fails ''/cam.mjpg'')) = Raised (Exc ''stop failed'')"
    using release_failure_propagates[OF resolve_eval(1) h(1,2), of True True] s1 h(5) by simp
  moreover have "snd (snd (do_GET True True env_detect ''/cam.mjpg'')) = Returned"
    using release_failure_propagates[OF resolve_eval(1) h(3,4), of True True] s2 h(6) by simp
  ultimately show ?thesis by simp
qed

text \<open>
  C7 as stated fails: in the session of \<open>env_stop_fails\<close> the exception of \<^verbatim>\<open>cam.stop()\<close>
  leaves \<^verbatim>\<open>do_GET\<close>, and the call is the last thing the handler does.
\<close>

theorem release_failure_counterexample:
  "snd (snd (do_GET True True env_stop_fails ''/cam.mjpg'')) = Raised (Exc ''stop failed'')
   \<and> last (fst (do_GET True True env_stop_fails ''/cam.mjpg'')) = CamStop"
  by (simp add: resolve_eval run_defs script_defs2)

text \<open>
  C8, as the code has it. When a write of a multipart part (the boundary line, the flush of
  the part's headers or the JPEG bytes) raises an \<^verbatim>\<open>Exception\<close> because the client has
  gone, after any number of iterations that each wrote their part or, in Algo mode,
  skipped their frame, the session ends and the failure is logged: in Algo mode by the
  handler of the loop, which prints \<open>algo exception:\<close> with the message and then the
  traceback, as it does for a failure of the detection routine; in Direct mode by the
  handler of \<^verbatim>\<open>do_GET\<close>, which prints the message. In both modes \<open>done streaming\<close> is
  printed next and \<^verbatim>\<open>cam.stop()\<close> is invoked.
\<close>

theorem disconnect_is_logged:
  "(resolve path = Some (Algo sel)
      \<and> head_w env = Inr () \<and> open_r env = Inr True \<and> start_r env = Inr ()
      \<and> algo_iters env = pre @ it # rest \<and> list_all (goes_on c) pre
      \<and> reaches_encoder c it True \<and> write_failure (algo_w it) = Some e \<and> catchable e
    \<longrightarrow> suffix [Print (PStr (''algo exception: '' @ str_exc e)), Traceback e,
                 Print (PStr ''done streaming ----------------------''), CamStop]
           (fst (do_GET c f env path))
        \<and> snd (snd (do_GET c f env path))
             = (case stop_r env of Inl e' \<Rightarrow> Raised e' | Inr u \<Rightarrow> Returned))
   \<and> (resolve path = Some Direct
      \<and> head_w env = Inr () \<and> open_r env = Inr True
      \<and> direct_iters env = dpre @ dit # drest \<and> list_all direct_ok dpre
      \<and> captures dit \<and> write_failure (direct_w dit) = Some e \<and> catchable e
    \<longrightarrow> suffix [Print (PStr (str_exc e)),
                 Print (PStr ''done streaming ----------------------''), CamStop]
           (fst (do_GET c f env path))
        \<and> snd (snd (do_GET c f env path))
             = (case stop_r env of Inl e' \<Rightarrow> Raised e' | Inr u \<Rightarrow> Returned))"
  using algo_disconnect[of path sel env pre it rest c e f]
    direct_disconnect[of path env dpre dit drest e c f]
  by blast

theorem disconnect_is_logged_witness:
  "suffix [Print (PStr ''algo exception: [Errno 32] Broken pipe''),
           Traceback (Exc ''[Errno 32] Broken pipe''),
           Print (PStr ''done streaming ----------------------''), CamStop]
     (fst (do_GET True True env_skip_gone ''/cam.mjpg''))
   \<and> suffix [Print (PStr ''[Errno 32] Broken pipe''),
           Print (PStr ''done streaming ----------------------''), CamStop]
     (fst (do_GET True True env_direct_gone ''/direct.mjpg''))"
proof -
  let ?e = "Exc ''[Errno 32] Broken pipe''"
  have g: "list_all (goes_on True) [it_unencoded, it_good, it_unencoded]"
    using delivers_it_good[of True] skips_it_unencoded[of True] by (simp add: goes_on_def)
  have a: "head_w env_skip_gone = Inr () \<and> open_r env_skip_gone = Inr True
      \<and> start_r env_skip_gone = Inr ()
      \<and> algo_iters env_skip_gone = [it_unencoded, it_good, it_unencoded] @ it_gone # [it_good]
      \<and> reaches_encoder True it_gone True \<and> write_failure (algo_w it_gone) = Some ?e
      \<and> catchable ?e"
    by (simp add: env_skip_gone_def env0_def it_gone_def io_gone_def reaches_encoder_def
        write_failure_def comm_update_def)
  have d: "head_w env_direct_gone = Inr () \<and> open_r env_direct_gone = Inr True
      \<and> direct_iters env_direct_gone = [dit_good ''AB''] @ dit_gone ''CDE'' # [dit_good ''F'']
      \<and> list_all direct_ok [dit_good ''AB'']
      \<and> captures (dit_gone ''CDE'') \<and> write_failure (direct_w (dit_gone ''CDE'')) = Some ?e
      \<and> catchable ?e"
    using direct_ok_dit_good(1)[of "''AB''"]
    by (simp add: env_direct_gone_def env0_def dit_gone_def io_gone_def captures_def
        write_failure_def)
  have "suffix [Print (PStr (''algo exception: '' @ str_exc ?e)), Traceback ?e,
           Print (PStr ''done streaming ----------------------''), CamStop]
     (fst (do_GET True True env_skip_gone ''/cam.mjpg''))"
    using disconnect_is_logged[where path = "''/cam.mjpg''" and sel = "''cam''"
        and env = env_skip_gone and pre = "[it_unencoded, it_good, it_unencoded]"
        and it = it_gone and rest = "[it_good]"
        and c = True and e = ?e and f = True and dpre = "[]" and dit = dit_end
        and drest = "[]"] resolve_eval(1) a g
    by blast
  moreover have "suffix [Print (PStr (str_exc ?e)),
           Print (PStr ''done streaming ----------------------''), CamStop]
     (fst (do_GET True True env_direct_gone ''/direct.mjpg''))"
    using disconnect_is_logged[where path = "''/direct.mjpg''" and sel = "''cam''"
        and env = env_direct_gone and pre = "[]" and it = it_gone and rest = "[]"
        and c = True and e = ?e and f = True and dpre = "[dit_good ''AB'']"
        and dit = "dit_gone ''CDE''" and drest = "[dit_good ''F'']"] resolve_eval(2) d
    by blast
  ultimately show ?thesis by simp
qed

text \<open>
  C8 as stated fails: what the sessions of \<open>env_gone\<close> and \<open>env_direct_gone\<close> print
  when the write of a JPEG body raises \<open>Broken pipe\<close>.
\<close>

theorem disconnect_counterexample:
  "logged (fst (do_GET True True env_gone ''/cam.mjpg'')) =
     [Print (PStr ''cam algo streaming''), Print (PInt 4),
      Print (PStr ''algo exception: [Errno 32] Broken pipe''),
      Traceback (Exc ''[Errno 32] Broken pipe''),
      Print (PStr ''done streaming ----------------------'')]
   \<and> logged (fst (do_GET True True env_direct_gone ''/direct.mjpg'')) =
     [Print (PStr ''direct streaming''),
      Print (PStr ''[Errno 32] Broken pipe''),
      Print (PStr ''done streaming ----------------------'')]"
  by (simp add: resolve_eval run_defs script_defs2 logged_def Let_def bio_write_def
      bio_getvalue_def bio_seek_def bio_truncate_def BytesIO_def)

text \<open>
  C9, as the code has it. The test is on the raw path string: a request whose path has
  characters after a \<open>.mjpg\<close> or \<open>.mjpeg\<close> (a query string, say) gets the landing page
  and no camera when the whole path does not itself end in \<open>.mjpg\<close> or \<open>.mjpeg\<close>.
\<close>

theorem trailing_characters_get_landing_page:
  assumes "suf = ''.mjpg'' \<or> suf = ''.mjpeg''"
    and "rest \<noteq> []"
    and "\<not> suffix ''.mjpg'' (pre @ suf @ rest)"
    and "\<not> suffix ''.mjpeg'' (pre @ suf @ rest)"
  shows "do_GET c f env (pre @ suf @ rest) = serve_page f env
         \<and> PiCam \<notin> set (fst (do_GET c f env (pre @ suf @ rest)))"
  using assms(3,4)
  by (simp add: do_GET_def resolve_def is_stream_path_suffix serve_page_no_cam)

theorem trailing_characters_get_landing_page_witness:
  "do_GET False True env0 ''/cam.mjpg?x=1'' =
     ([SendResponse 200, SendHeader ''Content-type'' (PStr ''text/html''),
       EndHeaders True, Write s_mainPage True], True, Returned)
   \<and> PiCam \<notin> set (fst (do_GET False True env0 ''/cam.mjpg?x=1''))"
proof -
  have n: "\<not> suffix ''.mjpg'' (''/cam'' @ ''.mjpg'' @ ''?x=1'')"
    "\<not> suffix ''.mjpeg'' (''/cam'' @ ''.mjpg'' @ ''?x=1'')"
    by (simp_all add: endswith_suffix[symmetric] endswith_def)
  have p: "serve_page True env0 =
     ([SendResponse 200, SendHeader ''Content-type'' (PStr ''text/html''),
       EndHeaders True, Write s_mainPage True], True, Returned)"
    by (simp add: serve_page_ok env0_def)
  show ?thesis
    using trailing_characters_get_landing_page[of "''.mjpg''" "''?x=1''" "''/cam''"
        False True env0, OF _ _ n] p
    by simp
qed

text \<open>
  C9 as stated fails: the path \<open>/cam.mjpg?x=a.mjpg\<close> has characters after its first
  \<open>.mjpg\<close>, and it is streamed, in Algo mode with the selector \<open>cam\<close>.
\<close>

theorem trailing_characters_counterexample:
  "resolve ''/cam.mjpg?x=a.mjpg'' = Some (Algo ''cam'')
   \<and> PiCam \<in> set (fst (do_GET False True env0 ''/cam.mjpg?x=a.mjpg''))"
proof -
  have r: "resolve ''/cam.mjpg?x=a.mjpg'' = Some (Algo ''cam'')"
    by (simp add: resolve_def is_stream_path_def endswith_def mode_of_def algostr_of_def
        basename_def Let_def)
  show ?thesis
    by (simp add: r run_defs script_defs2)
qed

end
